theory Spec2Isabelle
  imports Complex_Main
begin

section \<open>Shared vocabulary of the two harvesting notebooks\<close>

text \<open>
  The repository holds two notebooks: the BoardGameGeek harvester (XML API, functions
  \<open>checkNumericRange\<close>, \<open>removeMarkup\<close>, \<open>flushBuffer\<close>, \<open>getData\<close> and a main loop) and the
  TrustPilot harvester (HTML, functions \<open>scrape_category_page\<close>, \<open>get_business_reviews\<close> and
  a main loop).  Modelled are the two drivers and the two main loops with what they
  call; the listing walk \<open>scrape_category_page\<close> only supplies the list of URLs.  Network,
  parser and language detector are outside the notebooks; they enter the model as data
  (the outcome of each request, in the order the requests are made) and as function
  parameters (\<open>float\<close>, \<open>removeMarkup\<close>'s regular expressions, \<open>langdetect.detect\<close>).
  Progress messages and the lengths of the sleeps are left out.
\<close>

datatype exn = LangDetectException | RequestException | UnboundLocalError | OtherException

text \<open>What a driver observably does: a page request for a cursor, or an inter-page sleep.\<close>

datatype 'c event = Get 'c | Sleep

text \<open>
  \<open>gameName\<close> starts as the string \<open>''\<close> and is later bound to the list that \<open>xpath\<close>
  returns; \<open>business_name\<close> is a stripped string.
\<close>

datatype name_val = NameStr string | NameList "string list"

record 'r parent =
  p_name :: name_val
  p_reviews :: "'r list"

datatype 'r pyvalue = PyNone | Dict "'r parent"

datatype 'r outcome = Returned "'r pyvalue" | Raised exn

section \<open>BoardGameGeek notebook\<close>

subsection \<open>checkNumericRange\<close>

text \<open>
  A Python float is a finite rational, an infinity or NaN.  Comparisons with NaN are
  false.  The builtin \<open>float\<close> is a parameter \<open>flt\<close>: \<open>None\<close> when it raises
  (\<open>ValueError\<close>, or \<open>TypeError\<close> on \<open>None\<close>).
\<close>

datatype pyfloat = Finite real | PosInf | NegInf | NaN

fun fle :: "pyfloat \<Rightarrow> pyfloat \<Rightarrow> bool" where
  "fle NaN _ = False"
| "fle _ NaN = False"
| "fle NegInf _ = True"
| "fle _ PosInf = True"
| "fle (Finite a) (Finite b) = (a \<le> b)"
| "fle _ _ = False"

type_synonym pyfloat_fn = "string option \<Rightarrow> pyfloat option"

definition checkNumericRange :: "pyfloat_fn \<Rightarrow> string option \<Rightarrow> real \<Rightarrow> real \<Rightarrow> bool" where
  "checkNumericRange flt val mn mx =
     (case flt val of
        None \<Rightarrow> False
      | Some num \<Rightarrow> (if fle (Finite mn) num \<and> fle num (Finite mx) then True else False))"

subsection \<open>getData\<close>

text \<open>
  \<open>removeMarkup\<close> applies \<open>re.sub\<close> for five patterns and swallows every exception, so it
  always returns; it is the parameter \<open>rm\<close>.  \<open>detect\<close> is the parameter \<open>det\<close>: \<open>Inr l\<close> for a
  language code, \<open>Inl e\<close> when it raises \<open>e\<close>.  Its argument is optional because
  \<open>comment.text\<close> is \<open>None\<close> for a comment element without text.
\<close>

type_synonym markup_fn = "string option \<Rightarrow> string option"
type_synonym detect_fn = "string option \<Rightarrow> exn + string"

record comment =
  c_rating :: "string option"
  c_text :: "string option"

record xmldoc =
  names :: "string list"
  comments :: "comment list"

datatype body = Malformed | Xml xmldoc

text \<open>
  One call of \<open>requests.get\<close>: it raises, or yields a response with a status code whose
  content \<open>etree.fromstring\<close> rejects (\<open>Malformed\<close>) or parses.
\<close>

datatype fetch = GetRaises exn | Response nat body

record api_review =
  ar_rating :: "string option"
  ar_review_text :: "string option"

text \<open>
  The \<open>for comment in comments\<close> loop.  It mutates \<open>reviewData\<close> in place, so an exception
  that leaves the loop keeps the records appended before it: the result is the escaping
  exception, if any, with the list as it then stands.  Only \<open>LangDetectException\<close> is
  caught inside the loop.
\<close>

fun comment_loop ::
  "pyfloat_fn \<Rightarrow> markup_fn \<Rightarrow> detect_fn \<Rightarrow> comment list \<Rightarrow> api_review list
     \<Rightarrow> exn option \<times> api_review list" where
  "comment_loop flt rm det [] rd = (None, rd)"
| "comment_loop flt rm det (c # cs) rd =
     (let dummy = c_rating c in
      if checkNumericRange flt dummy 1 10 then
        (let rtg = dummy; txt = rm (c_text c) in
         case det txt of
           Inl e \<Rightarrow>
             (if e = LangDetectException then comment_loop flt rm det cs rd else (Some e, rd))
         | Inr lang \<Rightarrow>
             (if lang = ''en''
              then comment_loop flt rm det cs
                     (rd @ [\<lparr>ar_rating = rtg, ar_review_text = txt\<rparr>])
              else comment_loop flt rm det cs rd))
      else comment_loop flt rm det cs rd)"

text \<open>
  The local variables of \<open>getData\<close> that steer the loop (the counters that only feed the
  progress message are left out), with the log of requests and sleeps.
\<close>

record gstate =
  pgCount :: nat
  reviewData :: "api_review list"
  gameName :: name_val
  keepGoing :: bool
  requestErrorCount :: nat
  g_events :: "nat event list"

definition g_init :: gstate where
  "g_init = \<lparr>pgCount = 1, reviewData = [], gameName = NameStr [], keepGoing = True,
             requestErrorCount = 0, g_events = []\<rparr>"

text \<open>The two handlers that count an error: both stop the loop at the third.\<close>

definition count_error :: "gstate \<Rightarrow> gstate" where
  "count_error st =
     (let st1 = st\<lparr>requestErrorCount := requestErrorCount st + 1\<rparr> in
      if requestErrorCount st1 \<ge> 3 then st1\<lparr>keepGoing := False\<rparr> else st1)"

text \<open>
  One pass through the body of \<open>while keepGoing\<close>, given what \<open>requests.get\<close> does.  The
  first component is an exception that reaches the outer \<open>try\<close> of \<open>getData\<close>.
\<close>

definition getData_iter ::
  "pyfloat_fn \<Rightarrow> markup_fn \<Rightarrow> detect_fn \<Rightarrow> fetch \<Rightarrow> gstate \<Rightarrow> exn option \<times> gstate" where
  "getData_iter flt rm det f st =
     (let st0 = st\<lparr>g_events := g_events st @ [Get (pgCount st)]\<rparr> in
      case f of
        GetRaises e \<Rightarrow> (Some e, st0)
      | Response status_code content \<Rightarrow>
          if status_code = 200 then
            (case content of
               Malformed \<Rightarrow> (None, count_error st0)
             | Xml xmlDoc \<Rightarrow>
                 if length (comments xmlDoc) > 0 then
                   (let st1 = (if pgCount st0 = 1
                               then st0\<lparr>gameName := NameList (names xmlDoc)\<rparr> else st0) in
                    case comment_loop flt rm det (comments xmlDoc) (reviewData st1) of
                      (Some e, rd) \<Rightarrow> (None, count_error (st1\<lparr>reviewData := rd\<rparr>))
                    | (None, rd) \<Rightarrow>
                        (None, st1\<lparr>reviewData := rd, pgCount := pgCount st1 + 1,
                                    g_events := g_events st1 @ [Sleep]\<rparr>))
                 else (None, st0\<lparr>keepGoing := False\<rparr>))
          else (None, count_error st0))"

text \<open>
  The \<open>while\<close> loop over the outcomes of the successive requests.  \<open>None\<close>: the outcomes
  given are used up and the loop is still running.
\<close>

fun getData_loop ::
  "pyfloat_fn \<Rightarrow> markup_fn \<Rightarrow> detect_fn \<Rightarrow> fetch list \<Rightarrow> gstate
     \<Rightarrow> (exn option \<times> gstate) option" where
  "getData_loop flt rm det fs st =
     (if \<not> keepGoing st then Some (None, st)
      else case fs of
        [] \<Rightarrow> None
      | f # fs' \<Rightarrow>
          (case getData_iter flt rm det f st of
             (Some e, st') \<Rightarrow> Some (Some e, st')
           | (None, st') \<Rightarrow> getData_loop flt rm det fs' st'))"

text \<open>
  \<open>getData\<close>: \<open>None\<close> for a missing id; the dictionary when the loop ends; \<open>None\<close> from the
  outer handler when an exception reached it.  The second component is the request log.
\<close>

definition getData ::
  "pyfloat_fn \<Rightarrow> markup_fn \<Rightarrow> detect_fn \<Rightarrow> int option \<Rightarrow> fetch list
     \<Rightarrow> (api_review outcome \<times> nat event list) option" where
  "getData flt rm det gameID fs =
     (if gameID = None then Some (Returned PyNone, [])
      else case getData_loop flt rm det fs g_init of
        None \<Rightarrow> None
      | Some (Some e, st) \<Rightarrow> Some (Returned PyNone, g_events st)
      | Some (None, st) \<Rightarrow>
          Some (Returned (Dict \<lparr>p_name = gameName st, p_reviews = reviewData st\<rparr>),
                g_events st))"

declare getData_loop.simps [simp del]

subsection \<open>Main loop and flushBuffer\<close>

text \<open>
  The globals and the operator's settings of the main cell.  The seed table is taken as
  loaded (\<open>canProcess\<close> true); after \<open>reset_index\<close> its index runs 0, 1, 2, ...
\<close>

record config =
  reprocess :: bool
  reprocessIndex :: int
  reprocessIDs :: "int list"
  checkThreshold :: int
  outputFile :: string

text \<open>
  \<open>all_reviews\<close>, the two counters of the main cell, and the log of file writes: each
  \<open>open(name, 'w')\<close> followed by \<open>json.dump\<close> replaces the content of \<open>name\<close>.
\<close>

record bstate =
  all_reviews :: "api_review parent list"
  totalSaved :: nat
  checkCount :: nat
  writes :: "(string \<times> api_review parent list) list"

definition b_init :: bstate where
  "b_init = \<lparr>all_reviews = [], totalSaved = 0, checkCount = 0, writes = []\<rparr>"

definition flushBuffer :: "config \<Rightarrow> bstate \<Rightarrow> bstate" where
  "flushBuffer cfg st = st\<lparr>writes := writes st @ [(outputFile cfg, all_reviews st)]\<rparr>"

text \<open>The resume filter at the head of the loop body: true when the row is skipped.\<close>

definition skip_row :: "config \<Rightarrow> nat \<Rightarrow> int \<Rightarrow> bool" where
  "skip_row cfg index gameID =
     (reprocess cfg \<and> (int index < reprocessIndex cfg \<or> \<not> (gameID \<in> set (reprocessIDs cfg))))"

text \<open>The loop body after \<open>getData\<close> has returned \<open>gameReviews\<close> (sleeps left out).\<close>

definition main_body :: "config \<Rightarrow> api_review pyvalue \<Rightarrow> bstate \<Rightarrow> bstate" where
  "main_body cfg gameReviews st =
     (case gameReviews of
        PyNone \<Rightarrow> st
      | Dict gr \<Rightarrow>
          if length (p_reviews gr) > 0 then
            (let st1 = st\<lparr>totalSaved := totalSaved st + length (p_reviews gr),
                          all_reviews := all_reviews st @ [gr]\<rparr>;
                 st2 = st1\<lparr>checkCount := checkCount st1 + length (p_reviews gr)\<rparr>
             in if int (checkCount st2) \<ge> checkThreshold cfg
                then (flushBuffer cfg st2)\<lparr>checkCount := 0\<rparr>
                else st2)
          else st)"

text \<open>
  The \<open>for index, row\<close> loop.  Each row brings its id and the outcomes of the requests
  made for it.  \<open>None\<close>: some \<open>getData\<close> call has not returned.  An exception leaving
  \<open>getData\<close> would end the cell.
\<close>

fun main_loop ::
  "pyfloat_fn \<Rightarrow> markup_fn \<Rightarrow> detect_fn \<Rightarrow> config \<Rightarrow> nat \<Rightarrow> (int \<times> fetch list) list
     \<Rightarrow> bstate \<Rightarrow> (exn option \<times> bstate) option" where
  "main_loop flt rm det cfg index [] st = Some (None, st)"
| "main_loop flt rm det cfg index ((gameID, fs) # rows) st =
     (if skip_row cfg index gameID then main_loop flt rm det cfg (index + 1) rows st
      else case getData flt rm det (Some gameID) fs of
        None \<Rightarrow> None
      | Some (Raised e, evs) \<Rightarrow> Some (Some e, st)
      | Some (Returned gameReviews, evs) \<Rightarrow>
          main_loop flt rm det cfg (index + 1) rows (main_body cfg gameReviews st))"

text \<open>The main cell followed by the wrap-up cell, which flushes once more.\<close>

definition bgg_run ::
  "pyfloat_fn \<Rightarrow> markup_fn \<Rightarrow> detect_fn \<Rightarrow> config \<Rightarrow> (int \<times> fetch list) list
     \<Rightarrow> bstate \<Rightarrow> (exn option \<times> bstate) option" where
  "bgg_run flt rm det cfg rows st =
     (case main_loop flt rm det cfg 0 rows st of
        None \<Rightarrow> None
      | Some (Some e, st') \<Rightarrow> Some (Some e, st')
      | Some (None, st') \<Rightarrow> Some (None, flushBuffer cfg st'))"

section \<open>TrustPilot notebook\<close>

subsection \<open>get_business_reviews\<close>

text \<open>
  What the BeautifulSoup queries give for one review card and one page: the rating
  attribute of the rating \<open>div\<close>, the stripped text of the title and text elements
  (\<open>None\<close> when the element is missing), the stripped text of the
  \<open>business-unit-title\<close> element, and the joined URL of the next-page link when that
  link exists and has an \<open>href\<close>.
\<close>

record review_card =
  rc_rating :: "string option"
  rc_title :: "string option"
  rc_text :: "string option"

record html_page =
  title_div :: "string option"
  cards :: "review_card list"
  next_url :: "string option"

datatype hfetch = HGetRaises exn | HPage html_page

record html_review =
  hr_rating :: string
  hr_review_title :: "string option"
  hr_review_text :: "string option"

text \<open>Truth value of \<open>t and detect(t)=='en'\<close>; \<open>None\<close> and the empty string are falsy.\<close>

definition detects_en :: "detect_fn \<Rightarrow> string option \<Rightarrow> exn + bool" where
  "detects_en det t =
     (case t of
        None \<Rightarrow> Inr False
      | Some s \<Rightarrow>
          if s = [] then Inr False
          else (case det (Some s) of Inl e \<Rightarrow> Inl e | Inr lang \<Rightarrow> Inr (lang = ''en'')))"

text \<open>The \<open>or\<close> of the two: the second operand is evaluated only when the first is falsy.\<close>

definition english_cond :: "detect_fn \<Rightarrow> string option \<Rightarrow> string option \<Rightarrow> exn + bool" where
  "english_cond det ttl txt =
     (case detects_en det ttl of
        Inl e \<Rightarrow> Inl e
      | Inr b \<Rightarrow> if b then Inr True else detects_en det txt)"

text \<open>
  The body of \<open>for review in ...\<close>.  Both handlers of its \<open>try\<close> leave \<open>reviews_data\<close> as it
  is and go on with the next card.
\<close>

definition review_step :: "detect_fn \<Rightarrow> review_card \<Rightarrow> html_review list \<Rightarrow> html_review list" where
  "review_step det review rd =
     (case rc_rating review of
        None \<Rightarrow> rd
      | Some rating \<Rightarrow>
          if rc_text review \<noteq> None \<or> rc_title review \<noteq> None then
            (let ttl = rc_title review; txt = rc_text review in
             case english_cond det ttl txt of
               Inl e \<Rightarrow> rd
             | Inr b \<Rightarrow>
                 if b then rd @ [\<lparr>hr_rating = rating, hr_review_title = ttl,
                                   hr_review_text = txt\<rparr>]
                 else rd)
          else rd)"

fun review_loop :: "detect_fn \<Rightarrow> review_card list \<Rightarrow> html_review list \<Rightarrow> html_review list" where
  "review_loop det [] rd = rd"
| "review_loop det (review # rs) rd = review_loop det rs (review_step det review rd)"

text \<open>\<open>business_name\<close> is unbound (\<open>None\<close>) until its first assignment.\<close>

record hstate =
  h_url :: "string option"
  reviews_data :: "html_review list"
  business_name :: "string option"
  h_events :: "string event list"

text \<open>The \<open>try\<close> body after a page has been fetched and parsed.\<close>

definition page_step :: "detect_fn \<Rightarrow> html_page \<Rightarrow> hstate \<Rightarrow> hstate" where
  "page_step det soup st =
     (let st1 = (if reviews_data st = []
                 then (case title_div soup of
                         Some busText \<Rightarrow> st\<lparr>business_name := Some busText\<rparr>
                       | None \<Rightarrow> st)
                 else st);
          st2 = st1\<lparr>reviews_data := review_loop det (cards soup) (reviews_data st1)\<rparr>;
          st3 = st2\<lparr>h_url := next_url soup\<rparr>
      in st3\<lparr>h_events := h_events st3 @ [Sleep]\<rparr>)"

text \<open>
  \<open>while url\<close>: a failed request or parse breaks out of the loop.  \<open>None\<close>: the outcomes
  given are used up and the loop is still running.
\<close>

fun gbr_loop :: "detect_fn \<Rightarrow> hfetch list \<Rightarrow> hstate \<Rightarrow> hstate option" where
  "gbr_loop det fs st =
     (case h_url st of
        None \<Rightarrow> Some st
      | Some u \<Rightarrow>
          if u = [] then Some st
          else (case fs of
                  [] \<Rightarrow> None
                | f # fs' \<Rightarrow>
                    (case f of
                       HGetRaises e \<Rightarrow> Some (st\<lparr>h_events := h_events st @ [Get u]\<rparr>)
                     | HPage soup \<Rightarrow>
                         gbr_loop det fs'
                           (page_step det soup (st\<lparr>h_events := h_events st @ [Get u]\<rparr>)))))"

declare gbr_loop.simps [simp del]

definition h_init :: "string \<Rightarrow> hstate" where
  "h_init url = \<lparr>h_url = Some url, reviews_data = [], business_name = None, h_events = []\<rparr>"

text \<open>The final \<open>return\<close> reads \<open>business_name\<close>, which raises when it was never bound.\<close>

definition get_business_reviews ::
  "detect_fn \<Rightarrow> string \<Rightarrow> hfetch list \<Rightarrow> (html_review outcome \<times> string event list) option" where
  "get_business_reviews det url fs =
     (case gbr_loop det fs (h_init url) of
        None \<Rightarrow> None
      | Some st \<Rightarrow>
          Some (case business_name st of
                  None \<Rightarrow> Raised UnboundLocalError
                | Some nm \<Rightarrow> Returned (Dict \<lparr>p_name = NameStr nm, p_reviews = reviews_data st\<rparr>),
                h_events st))"

subsection \<open>Main loop, clean-up and save\<close>

record tstate =
  tp_all_reviews :: "html_review parent list"
  tp_writes :: "(string \<times> html_review parent list) list"

definition t_init :: tstate where
  "t_init = \<lparr>tp_all_reviews = [], tp_writes = []\<rparr>"

definition tp_body :: "html_review pyvalue \<Rightarrow> tstate \<Rightarrow> tstate" where
  "tp_body reviews st =
     (case reviews of
        PyNone \<Rightarrow> st
      | Dict r \<Rightarrow>
          if length (p_reviews r) > 0
          then st\<lparr>tp_all_reviews := tp_all_reviews st @ [r]\<rparr>
          else st)"

text \<open>
  The loop over the business URLs, each with the outcomes of its requests.  The call of
  \<open>get_business_reviews\<close> stands outside the \<open>try\<close>, so an exception it raises ends the
  cell.
\<close>

fun tp_loop ::
  "detect_fn \<Rightarrow> (string \<times> hfetch list) list \<Rightarrow> tstate \<Rightarrow> (exn option \<times> tstate) option" where
  "tp_loop det [] st = Some (None, st)"
| "tp_loop det ((url, fs) # rows) st =
     (case get_business_reviews det url fs of
        None \<Rightarrow> None
      | Some (Raised e, evs) \<Rightarrow> Some (Some e, st)
      | Some (Returned reviews, evs) \<Rightarrow> tp_loop det rows (tp_body reviews st))"

text \<open>
  The clean-up cell rewrites each stored name (\<open>split\<close> at \<open>Reviews\<close>, removal of the
  no-break space: the parameter \<open>clean\<close>); the last cell writes the file.
\<close>

fun clean_name :: "(string \<Rightarrow> string) \<Rightarrow> name_val \<Rightarrow> name_val" where
  "clean_name clean (NameStr s) = NameStr (clean s)"
| "clean_name clean (NameList l) = NameList l"

definition cleanup :: "(string \<Rightarrow> string) \<Rightarrow> tstate \<Rightarrow> tstate" where
  "cleanup clean st =
     st\<lparr>tp_all_reviews := map (\<lambda>rvw. rvw\<lparr>p_name := clean_name clean (p_name rvw)\<rparr>)
                              (tp_all_reviews st)\<rparr>"

definition save_file :: "string \<Rightarrow> tstate \<Rightarrow> tstate" where
  "save_file filename st = st\<lparr>tp_writes := tp_writes st @ [(filename, tp_all_reviews st)]\<rparr>"

text \<open>The cells in order, over \<open>reversed(business_urls)\<close>; an uncaught exception stops the run.\<close>

definition tp_run ::
  "detect_fn \<Rightarrow> (string \<Rightarrow> string) \<Rightarrow> string \<Rightarrow> (string \<times> hfetch list) list \<Rightarrow> tstate
     \<Rightarrow> (exn option \<times> tstate) option" where
  "tp_run det clean filename business_urls st =
     (case tp_loop det (rev business_urls) st of
        None \<Rightarrow> None
      | Some (Some e, st') \<Rightarrow> Some (Some e, st')
      | Some (None, st') \<Rightarrow> Some (None, save_file filename (cleanup clean st')))"

section \<open>Predicates used in the statements\<close>

text \<open>
  A request that comes back but counts as an error in \<open>getData\<close>: a status other than
  200, or content that \<open>etree.fromstring\<close> rejects.
\<close>

definition fetch_fails :: "fetch \<Rightarrow> bool" where
  "fetch_fails f =
     (case f of GetRaises e \<Rightarrow> False
      | Response status_code content \<Rightarrow> status_code \<noteq> 200 \<or> content = Malformed)"

text \<open>
  For a title or text of a review card: it is non-empty and \<open>detect\<close> returns \<open>en\<close>;
  it is non-empty and \<open>detect\<close> raises.
\<close>

definition is_en :: "detect_fn \<Rightarrow> string option \<Rightarrow> bool" where
  "is_en det t = (case t of None \<Rightarrow> False | Some s \<Rightarrow> s \<noteq> [] \<and> det (Some s) = Inr ''en'')"

definition detect_fails :: "detect_fn \<Rightarrow> string option \<Rightarrow> bool" where
  "detect_fails det t = (case t of None \<Rightarrow> False | Some s \<Rightarrow> s \<noteq> [] \<and> isl (det (Some s)))"

text \<open>Every stored parent result holds at least one accepted record.\<close>

definition buffer_ok :: "'r parent list \<Rightarrow> bool" where
  "buffer_ok buf = list_all (\<lambda>p. p_reviews p \<noteq> []) buf"

text \<open>Number of accepted records in a buffer; the buffer most recently written to disk.\<close>

definition nrecords :: "'r parent list \<Rightarrow> nat" where
  "nrecords buf = sum_list (map (\<lambda>p. length (p_reviews p)) buf)"

definition last_flushed :: "bstate \<Rightarrow> api_review parent list" where
  "last_flushed st = (case writes st of [] \<Rightarrow> [] | w # ws \<Rightarrow> snd (last (w # ws)))"

text \<open>
  An outcome after which \<open>getData\<close> makes no further request: the request raises, or the
  page parses and has no comment.  An outcome after which \<open>get_business_reviews\<close> makes no
  further request: the request raises, or the page has no usable next-page link.
\<close>

definition ends_pagination :: "fetch \<Rightarrow> bool" where
  "ends_pagination f =
     (case f of
        GetRaises e \<Rightarrow> True
      | Response status_code content \<Rightarrow>
          status_code = 200 \<and> (case content of Malformed \<Rightarrow> False
                                | Xml xmlDoc \<Rightarrow> comments xmlDoc = []))"

definition ends_walk :: "hfetch \<Rightarrow> bool" where
  "ends_walk h =
     (case h of
        HGetRaises e \<Rightarrow> True
      | HPage soup \<Rightarrow> next_url soup = None \<or> next_url soup = Some [])"

section \<open>Sample data for the worked instances\<close>

text \<open>
  A \<open>float\<close> that knows the strings 7 and 11; a detector that raises \<open>TypeError\<close> (here
  \<open>OtherException\<close>) on \<open>None\<close>, as \<open>langdetect\<close> does, raises \<open>LangDetectException\<close> on text
  without features, and otherwise answers \<open>de\<close> or \<open>en\<close>; a configuration with threshold 2;
  API pages and review cards built from these.
\<close>

definition ex_flt :: pyfloat_fn where
  "ex_flt v = (if v = Some ''7'' then Some (Finite 7)
               else if v = Some ''11'' then Some (Finite 11) else None)"

definition ex_det :: detect_fn where
  "ex_det t =
     (case t of
        None \<Rightarrow> Inl OtherException
      | Some s \<Rightarrow>
          if s = [] \<or> s = ''!!'' then Inl LangDetectException
          else if s = ''Schlecht'' then Inr ''de'' else Inr ''en'')"

definition ex_cfg :: config where
  "ex_cfg = \<lparr>reprocess = False, reprocessIndex = 0, reprocessIDs = [], checkThreshold = 2,
             outputFile = ''bgg.json''\<rparr>"

definition ex_page :: "string \<Rightarrow> fetch" where
  "ex_page nm = Response 200 (Xml \<lparr>names = [nm],
                   comments = [\<lparr>c_rating = Some ''7'', c_text = Some ''Great''\<rparr>]\<rparr>)"

definition ex_last :: fetch where
  "ex_last = Response 200 (Xml \<lparr>names = [], comments = []\<rparr>)"

definition ex_game :: "string \<Rightarrow> api_review parent" where
  "ex_game nm = \<lparr>p_name = NameList [nm],
                 p_reviews = [\<lparr>ar_rating = Some ''7'', ar_review_text = Some ''Great''\<rparr>]\<rparr>"

definition ex_card :: "string option \<Rightarrow> string option \<Rightarrow> review_card" where
  "ex_card ttl txt = \<lparr>rc_rating = Some ''5'', rc_title = ttl, rc_text = txt\<rparr>"

definition ex_soup :: "string \<Rightarrow> string option \<Rightarrow> string option \<Rightarrow> hfetch" where
  "ex_soup nm ttl nxt = HPage \<lparr>title_div = Some nm, cards = [ex_card ttl None], next_url = nxt\<rparr>"

definition ex_business :: "string \<Rightarrow> string \<Rightarrow> html_review parent" where
  "ex_business nm ttl = \<lparr>p_name = NameStr nm,
       p_reviews = [\<lparr>hr_rating = ''5'', hr_review_title = Some ttl, hr_review_text = None\<rparr>]\<rparr>"

section \<open>The pagination loop of getData\<close>

lemma getData_loop_stop:
  "\<not> keepGoing st \<Longrightarrow> getData_loop flt rm det fs st = Some (None, st)"
  by (simp add: getData_loop.simps)

lemma getData_loop_Nil:
  "keepGoing st \<Longrightarrow> getData_loop flt rm det [] st = None"
  by (simp add: getData_loop.simps)

lemma getData_loop_Cons:
  "keepGoing st \<Longrightarrow>
   getData_loop flt rm det (f # fs) st =
     (case getData_iter flt rm det f st of
        (Some e, st') \<Rightarrow> Some (Some e, st')
      | (None, st') \<Rightarrow> getData_loop flt rm det fs st')"
  by (subst getData_loop.simps) simp

lemma getData_iter_fails:
  "fetch_fails f \<Longrightarrow>
   getData_iter flt rm det f st =
     (None, count_error (st\<lparr>g_events := g_events st @ [Get (pgCount st)]\<rparr>))"
  by (auto simp: fetch_fails_def getData_iter_def Let_def split: fetch.splits body.splits)

lemma getData_iter_raises:
  "getData_iter flt rm det (GetRaises e) st =
     (Some e, st\<lparr>g_events := g_events st @ [Get (pgCount st)]\<rparr>)"
  by (simp add: getData_iter_def)

lemma getData_loop_all_fail:
  "keepGoing st \<Longrightarrow> requestErrorCount st < 3 \<Longrightarrow> \<forall>f \<in> set fs. fetch_fails f \<Longrightarrow>
   getData_loop flt rm det fs st =
     (if length fs < 3 - requestErrorCount st then None
      else Some (None, st\<lparr>requestErrorCount := 3, keepGoing := False,
                   g_events := g_events st @ replicate (3 - requestErrorCount st) (Get (pgCount st))\<rparr>))"
proof (induction fs arbitrary: st)
  case Nil
  then show ?case by (simp add: getData_loop_Nil)
next
  case (Cons f fs)
  let ?st0 = "st\<lparr>g_events := g_events st @ [Get (pgCount st)]\<rparr>"
  have it: "getData_iter flt rm det f st = (None, count_error ?st0)"
    using Cons.prems by (simp add: getData_iter_fails)
  show ?case
  proof (cases "requestErrorCount st = 2")
    case True
    then have "count_error ?st0 = ?st0\<lparr>requestErrorCount := 3, keepGoing := False\<rparr>"
      by (simp add: count_error_def)
    then show ?thesis
      using Cons.prems True it by (simp add: getData_loop_Cons getData_loop_stop)
  next
    case False
    then have lt: "requestErrorCount st < 2" using Cons.prems by simp
    then have ce: "count_error ?st0 = ?st0\<lparr>requestErrorCount := requestErrorCount st + 1\<rparr>"
      by (simp add: count_error_def Let_def)
    have "getData_loop flt rm det (f # fs) st =
          getData_loop flt rm det fs (?st0\<lparr>requestErrorCount := requestErrorCount st + 1\<rparr>)"
      using Cons.prems it ce by (simp add: getData_loop_Cons)
    also have "\<dots> = (if length fs < 3 - (requestErrorCount st + 1) then None
      else Some (None, ?st0\<lparr>requestErrorCount := 3, keepGoing := False,
                   g_events := g_events ?st0 @ replicate (3 - (requestErrorCount st + 1)) (Get (pgCount st))\<rparr>))"
      using Cons.prems lt by (subst Cons.IH) auto
    finally show ?thesis using lt
      by (auto simp: replicate_append_same Suc_diff_Suc simp flip: replicate_Suc)
  qed
qed

lemma gbr_loop_raises:
  "h_url st = Some u \<Longrightarrow> u \<noteq> [] \<Longrightarrow>
   gbr_loop det (HGetRaises e # fs) st = Some (st\<lparr>h_events := h_events st @ [Get u]\<rparr>)"
  by (subst gbr_loop.simps) simp

lemma getData_iter_count_mono:
  "requestErrorCount st \<le> requestErrorCount (snd (getData_iter flt rm det f st))"
  by (auto simp: getData_iter_def count_error_def Let_def
      split: fetch.splits body.splits prod.splits option.splits)

subsection \<open>Error ceiling\<close>

text \<open>
  Claim C2, as the code has it.  When every request made by \<open>getData\<close> comes back with a
  status other than 200 or with content that does not parse, exactly three requests are
  made, all for page 1, and the dictionary with the records gathered so far (none) is
  returned; with fewer than three outcomes the loop is still running.  More generally,
  from any point of the loop with fewer than three errors counted, the loop ends as soon
  as the count reaches three, and the name, the gathered records and the page number are
  as they were.  No pass through the loop body lowers the counter: it is never reset.  A
  request that raises ends \<open>getData\<close> after that one request with \<open>None\<close>, and
  \<open>get_business_reviews\<close>, which has no counter, leaves its loop after the first request
  that raises.
\<close>

theorem getData_aborts_after_three_failures:
  assumes "\<forall>f \<in> set fs. fetch_fails f"
  shows "getData flt rm det (Some gameID) fs =
           (if length fs < 3 then None
            else Some (Returned (Dict \<lparr>p_name = NameStr [], p_reviews = []\<rparr>),
                       [Get 1, Get 1, Get 1]))
         \<and> (keepGoing st \<and> requestErrorCount st < 3 \<longrightarrow>
              getData_loop flt rm det fs st =
                (if length fs < 3 - requestErrorCount st then None
                 else Some (None, st\<lparr>requestErrorCount := 3, keepGoing := False,
                        g_events := g_events st @
                          replicate (3 - requestErrorCount st) (Get (pgCount st))\<rparr>)))
         \<and> getData flt rm det (Some gameID) (GetRaises e # fs') = Some (Returned PyNone, [Get 1])
         \<and> (u \<noteq> [] \<longrightarrow>
              gbr_loop det (HGetRaises e # hs) (h_init u) =
                Some ((h_init u)\<lparr>h_events := [Get u]\<rparr>))
         \<and> requestErrorCount st \<le> requestErrorCount (snd (getData_iter flt rm det f' st))"
proof -
  have init: "keepGoing g_init" "requestErrorCount g_init < 3"
    by (simp_all add: g_init_def)
  have "getData_loop flt rm det fs g_init =
          (if length fs < 3 then None
           else Some (None, g_init\<lparr>requestErrorCount := 3, keepGoing := False,
                  g_events := [Get 1, Get 1, Get 1]\<rparr>))"
    using getData_loop_all_fail [OF init assms, of flt rm det]
    by (simp add: g_init_def numeral_3_eq_3)
  then have a: "getData flt rm det (Some gameID) fs =
           (if length fs < 3 then None
            else Some (Returned (Dict \<lparr>p_name = NameStr [], p_reviews = []\<rparr>),
                       [Get 1, Get 1, Get 1]))"
    by (simp add: getData_def g_init_def)
  have b: "keepGoing st \<and> requestErrorCount st < 3 \<longrightarrow>
              getData_loop flt rm det fs st =
                (if length fs < 3 - requestErrorCount st then None
                 else Some (None, st\<lparr>requestErrorCount := 3, keepGoing := False,
                        g_events := g_events st @
                          replicate (3 - requestErrorCount st) (Get (pgCount st))\<rparr>))"
    using getData_loop_all_fail [OF _ _ assms] by blast
  have c: "getData flt rm det (Some gameID) (GetRaises e # fs') = Some (Returned PyNone, [Get 1])"
    using init by (simp add: getData_def getData_loop_Cons getData_iter_raises) (simp add: g_init_def)
  have d: "u \<noteq> [] \<longrightarrow>
              gbr_loop det (HGetRaises e # hs) (h_init u) =
                Some ((h_init u)\<lparr>h_events := [Get u]\<rparr>)"
    by (simp add: gbr_loop_raises [of _ u] h_init_def)
  note m = getData_iter_count_mono [of st flt rm det f']
  from a b c d m show ?thesis by blast
qed

text \<open>
  The theorem at four failing responses, from the start and from the middle of a run,
  and at a page that succeeds after one error.
\<close>

theorem getData_aborts_after_three_failures_witness:
  "getData (\<lambda>v. None) (\<lambda>t. t) (\<lambda>t. Inr ''en'') (Some 13)
       [Response 500 Malformed, Response 200 Malformed, Response 404 Malformed, Response 200 Malformed]
     = Some (Returned (Dict \<lparr>p_name = NameStr [], p_reviews = []\<rparr>), [Get 1, Get 1, Get 1])
   \<and> getData_loop (\<lambda>v. None) (\<lambda>t. t) (\<lambda>t. Inr ''en'')
       [Response 500 Malformed, Response 200 Malformed, Response 404 Malformed, Response 200 Malformed]
       \<lparr>pgCount = 4, reviewData = [\<lparr>ar_rating = Some ''7'', ar_review_text = Some ''fun''\<rparr>],
        gameName = NameList [''Catan''], keepGoing = True, requestErrorCount = 1,
        g_events = []\<rparr>
     = Some (None,
        \<lparr>pgCount = 4, reviewData = [\<lparr>ar_rating = Some ''7'', ar_review_text = Some ''fun''\<rparr>],
         gameName = NameList [''Catan''], keepGoing = False, requestErrorCount = 3,
         g_events = [Get 4, Get 4]\<rparr>)
   \<and> gbr_loop (\<lambda>t. Inr ''en'') [HGetRaises RequestException] (h_init ''u'')
     = Some ((h_init ''u'')\<lparr>h_events := [Get ''u'']\<rparr>)
   \<and> requestErrorCount (snd (getData_iter (\<lambda>v. None) (\<lambda>t. t) (\<lambda>t. Inr ''en'') (ex_page ''A'')
       \<lparr>pgCount = 4, reviewData = [\<lparr>ar_rating = Some ''7'', ar_review_text = Some ''fun''\<rparr>],
        gameName = NameList [''Catan''], keepGoing = True, requestErrorCount = 1,
        g_events = []\<rparr>)) = 1"
  using getData_aborts_after_three_failures
    [of "[Response 500 Malformed, Response 200 Malformed, Response 404 Malformed, Response 200 Malformed]"
        "(\<lambda>v. None)" "(\<lambda>t. t)" "(\<lambda>t. Inr ''en'')" 13
        "\<lparr>pgCount = 4, reviewData = [\<lparr>ar_rating = Some ''7'', ar_review_text = Some ''fun''\<rparr>],
        gameName = NameList [''Catan''], keepGoing = True, requestErrorCount = 1,
        g_events = []\<rparr>" RequestException "[]" "''u''" "[]" "ex_page ''A''"]
  by (simp add: fetch_fails_def numeral_2_eq_2 getData_iter_def ex_page_def checkNumericRange_def)

text \<open>
  Claim C2 as stated fails: every request raises, one request is made instead of three,
  and \<open>None\<close> is returned instead of the gathered records.
\<close>

theorem three_attempts_counterexample:
  "getData (\<lambda>v. None) (\<lambda>t. t) (\<lambda>t. Inr ''en'') (Some 13)
      [GetRaises RequestException, GetRaises RequestException, GetRaises RequestException]
     = Some (Returned PyNone, [Get 1])"
  by (simp add: getData_def getData_loop_Cons getData_iter_raises g_init_def)

subsection \<open>Retry of a page after a non-success status\<close>

text \<open>
  Claim C10.  In \<open>getData\<close>, when a request returns a status other than 200 and the error
  counter stays below 3, the iteration only counts the error and logs the request: the
  page counter is unchanged and no sleep happens; the loop goes on, and the next thing it
  does is to request the same page number again.
\<close>

theorem getData_retries_same_page_without_delay:
  assumes "keepGoing st" and "status_code \<noteq> 200" and "requestErrorCount st + 1 < 3"
  shows "getData_iter flt rm det (Response status_code content) st =
           (None, st\<lparr>requestErrorCount := requestErrorCount st + 1,
                      g_events := g_events st @ [Get (pgCount st)]\<rparr>)
         \<and> getData_loop flt rm det (Response status_code content # f # fs) st =
             (case getData_iter flt rm det f
                     (st\<lparr>requestErrorCount := requestErrorCount st + 1,
                          g_events := g_events st @ [Get (pgCount st)]\<rparr>) of
                (Some e, st') \<Rightarrow> Some (Some e, st')
              | (None, st') \<Rightarrow> getData_loop flt rm det fs st')
         \<and> (\<exists>later. g_events (snd (getData_iter flt rm det f
                     (st\<lparr>requestErrorCount := requestErrorCount st + 1,
                          g_events := g_events st @ [Get (pgCount st)]\<rparr>))) =
               g_events st @ [Get (pgCount st), Get (pgCount st)] @ later)"
proof -
  let ?st1 = "st\<lparr>requestErrorCount := requestErrorCount st + 1,
                  g_events := g_events st @ [Get (pgCount st)]\<rparr>"
  have it: "getData_iter flt rm det (Response status_code content) st = (None, ?st1)"
    using assms by (simp add: getData_iter_def count_error_def Let_def)
  have kg: "keepGoing ?st1" using assms by simp
  have lp: "getData_loop flt rm det (Response status_code content # f # fs) st =
             (case getData_iter flt rm det f ?st1 of
                (Some e, st') \<Rightarrow> Some (Some e, st')
              | (None, st') \<Rightarrow> getData_loop flt rm det fs st')"
    using assms(1) it kg by (simp add: getData_loop_Cons)
  have ev: "\<exists>later. g_events (snd (getData_iter flt rm det f ?st1)) =
               g_events st @ [Get (pgCount st), Get (pgCount st)] @ later"
    by (auto simp: getData_iter_def count_error_def Let_def
             split: fetch.splits body.splits prod.splits option.splits)
  from it lp ev show ?thesis by blast
qed
theorem getData_retries_same_page_without_delay_witness:
  "getData_iter (\<lambda>v. None) (\<lambda>t. t) (\<lambda>t. Inr ''en'') (Response 503 Malformed) g_init =
     (None, g_init\<lparr>requestErrorCount := 1, g_events := [Get 1]\<rparr>)
   \<and> getData_loop (\<lambda>v. None) (\<lambda>t. t) (\<lambda>t. Inr ''en'')
        [Response 503 Malformed, Response 503 Malformed] g_init = None
   \<and> g_events (snd (getData_iter (\<lambda>v. None) (\<lambda>t. t) (\<lambda>t. Inr ''en'') (Response 503 Malformed)
        (g_init\<lparr>requestErrorCount := 1, g_events := [Get 1]\<rparr>))) = [Get 1, Get 1]"
  using getData_retries_same_page_without_delay
    [of g_init 503 "(\<lambda>v. None)" "(\<lambda>t. t)" "(\<lambda>t. Inr ''en'')" Malformed "Response 503 Malformed" "[]"]
  by (simp add: g_init_def getData_iter_def count_error_def getData_loop_Nil)

section \<open>Rating filter of the API source\<close>

lemma checkNumericRange_iff:
  "checkNumericRange flt val 1 10 \<longleftrightarrow> (\<exists>n. flt val = Some (Finite n) \<and> 1 \<le> n \<and> n \<le> 10)"
proof (cases "flt val")
  case None
  then show ?thesis by (simp add: checkNumericRange_def)
next
  case (Some num)
  then show ?thesis by (cases num) (simp_all add: checkNumericRange_def)
qed

lemma comment_loop_skip:
  "\<not> checkNumericRange flt (c_rating c) 1 10 \<Longrightarrow>
   comment_loop flt rm det (c # cs) rd = comment_loop flt rm det cs rd"
  by simp

lemma comment_loop_Cons_cases:
  "comment_loop flt rm det (c # cs) rd = comment_loop flt rm det cs rd
   \<or> (\<exists>e. comment_loop flt rm det (c # cs) rd = (Some e, rd))
   \<or> (checkNumericRange flt (c_rating c) 1 10 \<and>
       comment_loop flt rm det (c # cs) rd =
         comment_loop flt rm det cs (rd @ [\<lparr>ar_rating = c_rating c, ar_review_text = rm (c_text c)\<rparr>]))"
  by (simp add: Let_def split: sum.split)

lemma comment_loop_ratings:
  "r \<in> set (snd (comment_loop flt rm det cs rd)) \<Longrightarrow>
   r \<in> set rd \<or> checkNumericRange flt (ar_rating r) 1 10"
proof (induction cs arbitrary: rd)
  case Nil
  then show ?case by simp
next
  case (Cons c cs)
  let ?new = "\<lparr>ar_rating = c_rating c, ar_review_text = rm (c_text c)\<rparr>"
  consider (same) "comment_loop flt rm det (c # cs) rd = comment_loop flt rm det cs rd"
    | (exc) e where "comment_loop flt rm det (c # cs) rd = (Some e, rd)"
    | (app) "checkNumericRange flt (c_rating c) 1 10"
        "comment_loop flt rm det (c # cs) rd = comment_loop flt rm det cs (rd @ [?new])"
    using comment_loop_Cons_cases [of flt rm det c cs rd] by blast
  then show ?case
  proof cases
    case same
    with Cons.prems have "r \<in> set (snd (comment_loop flt rm det cs rd))" by simp
    then show ?thesis by (rule Cons.IH)
  next
    case exc
    with Cons.prems show ?thesis by simp
  next
    case app
    with Cons.prems have "r \<in> set (snd (comment_loop flt rm det cs (rd @ [?new])))" by simp
    then have "r \<in> set (rd @ [?new]) \<or> checkNumericRange flt (ar_rating r) 1 10"
      by (rule Cons.IH)
    with app(1) show ?thesis by auto
  qed
qed

text \<open>
  Claim C7.  In \<open>getData\<close> a comment gets past the rating check exactly when \<open>float\<close> of its
  rating attribute is a number between 1 and 10; a comment with any other rating is
  passed over without an error and the rest of the page is handled as if it were not
  there; every record the loop adds has a rating within the range.
\<close>

theorem rating_outside_range_rejected_silently:
  "(checkNumericRange flt val 1 10 \<longleftrightarrow> (\<exists>n. flt val = Some (Finite n) \<and> 1 \<le> n \<and> n \<le> 10))
   \<and> (\<not> checkNumericRange flt (c_rating c) 1 10 \<longrightarrow>
        comment_loop flt rm det (c # cs) rd = comment_loop flt rm det cs rd)
   \<and> (\<forall>r \<in> set (snd (comment_loop flt rm det cs rd)).
        r \<in> set rd \<or> checkNumericRange flt (ar_rating r) 1 10)"
proof (intro conjI impI ballI)
  show "checkNumericRange flt val 1 10 \<longleftrightarrow> (\<exists>n. flt val = Some (Finite n) \<and> 1 \<le> n \<and> n \<le> 10)"
    by (rule checkNumericRange_iff)
next
  assume "\<not> checkNumericRange flt (c_rating c) 1 10"
  then show "comment_loop flt rm det (c # cs) rd = comment_loop flt rm det cs rd"
    by (rule comment_loop_skip)
next
  fix r assume "r \<in> set (snd (comment_loop flt rm det cs rd))"
  then show "r \<in> set rd \<or> checkNumericRange flt (ar_rating r) 1 10"
    by (rule comment_loop_ratings)
qed

text \<open>The page of the example: ratings 11, 7 and a non-numeric one; only 7 is kept.\<close>

theorem rating_outside_range_rejected_silently_witness:
  "\<not> checkNumericRange
       (\<lambda>v. if v = Some ''7'' then Some (Finite 7) else if v = Some ''11'' then Some (Finite 11) else None)
       (Some ''11'') 1 10
   \<and> comment_loop
       (\<lambda>v. if v = Some ''7'' then Some (Finite 7) else if v = Some ''11'' then Some (Finite 11) else None)
       (\<lambda>t. t) (\<lambda>t. Inr ''en'')
       [\<lparr>c_rating = Some ''11'', c_text = Some ''too long''\<rparr>,
        \<lparr>c_rating = Some ''7'', c_text = Some ''good game''\<rparr>,
        \<lparr>c_rating = Some ''N/A'', c_text = Some ''no rating''\<rparr>] []
     = (None, [\<lparr>ar_rating = Some ''7'', ar_review_text = Some ''good game''\<rparr>])"
proof -
  let ?flt = "(\<lambda>v. if v = Some ''7'' then Some (Finite 7) else if v = Some ''11'' then Some (Finite 11) else None)"
  let ?c = "\<lparr>c_rating = Some ''11'', c_text = Some ''too long''\<rparr>"
  let ?cs = "[\<lparr>c_rating = Some ''7'', c_text = Some ''good game''\<rparr>,
          \<lparr>c_rating = Some ''N/A'', c_text = Some ''no rating''\<rparr>]"
  note inst = rating_outside_range_rejected_silently
    [of ?flt "Some ''11''" ?c "(\<lambda>t. t)" "(\<lambda>t. Inr ''en'')" ?cs "[]"]
  have out: "\<not> checkNumericRange ?flt (Some ''11'') 1 10"
    by (simp add: checkNumericRange_def)
  then have "comment_loop ?flt (\<lambda>t. t) (\<lambda>t. Inr ''en'') (?c # ?cs) [] =
             comment_loop ?flt (\<lambda>t. t) (\<lambda>t. Inr ''en'') ?cs []"
    using inst by simp
  moreover have "comment_loop ?flt (\<lambda>t. t) (\<lambda>t. Inr ''en'') ?cs [] =
    (None, [\<lparr>ar_rating = Some ''7'', ar_review_text = Some ''good game''\<rparr>])"
    by (simp add: checkNumericRange_def)
  ultimately show ?thesis using out by simp
qed

section \<open>Evaluation of the loops on given outcomes\<close>

lemma gbr_loop_done:
  "h_url st = None \<or> h_url st = Some [] \<Longrightarrow> gbr_loop det fs st = Some st"
  by (subst gbr_loop.simps) auto

lemma gbr_loop_Nil:
  "h_url st = Some u \<Longrightarrow> u \<noteq> [] \<Longrightarrow> gbr_loop det [] st = None"
  by (subst gbr_loop.simps) simp

lemma gbr_loop_page:
  "h_url st = Some u \<Longrightarrow> u \<noteq> [] \<Longrightarrow>
   gbr_loop det (HPage soup # fs) st =
     gbr_loop det fs (page_step det soup (st\<lparr>h_events := h_events st @ [Get u]\<rparr>))"
  by (subst gbr_loop.simps) simp

lemmas gd_eval =
  getData_def getData_loop_Cons getData_loop_Nil getData_loop_stop getData_iter_def g_init_def
  count_error_def checkNumericRange_def

lemmas gbr_eval =
  get_business_reviews_def gbr_loop_done gbr_loop_Nil gbr_loop_raises gbr_loop_page h_init_def
  page_step_def review_step_def english_cond_def detects_en_def

lemmas bgg_eval = bgg_run_def main_body_def flushBuffer_def skip_row_def b_init_def gd_eval

lemmas tp_eval = tp_run_def tp_body_def cleanup_def save_file_def t_init_def gbr_eval

lemmas ex_defs =
  ex_flt_def ex_det_def ex_cfg_def ex_page_def ex_last_def ex_game_def ex_card_def ex_soup_def
  ex_business_def

section \<open>The drivers at the error boundary\<close>

lemma getData_iter_ends:
  "ends_pagination f \<Longrightarrow>
   (\<exists>e st'. getData_iter flt rm det f st = (Some e, st'))
   \<or> (\<exists>st'. getData_iter flt rm det f st = (None, st') \<and> \<not> keepGoing st')"
  by (auto simp: ends_pagination_def getData_iter_def Let_def split: fetch.splits body.splits)

lemma getData_loop_ends:
  "ends_pagination f \<Longrightarrow> getData_loop flt rm det (fs @ [f]) st \<noteq> None"
proof (induction fs arbitrary: st)
  case Nil
  show ?case
  proof (cases "keepGoing st")
    case False
    then show ?thesis by (simp add: getData_loop_stop)
  next
    case True
    from getData_iter_ends [OF Nil, of flt rm det st] show ?thesis
    proof (elim disjE exE conjE)
      fix e st' assume "getData_iter flt rm det f st = (Some e, st')"
      then show ?thesis using True by (simp add: getData_loop_Cons)
    next
      fix st' assume "getData_iter flt rm det f st = (None, st')" "\<not> keepGoing st'"
      then show ?thesis using True by (simp add: getData_loop_Cons getData_loop_stop)
    qed
  qed
next
  case (Cons g fs)
  show ?case
  proof (cases "keepGoing st")
    case False
    then show ?thesis by (simp add: getData_loop_stop)
  next
    case True
    obtain r st' where it: "getData_iter flt rm det g st = (r, st')"
      by (cases "getData_iter flt rm det g st")
    show ?thesis
    proof (cases r)
      case None
      then show ?thesis using True it Cons.IH [OF Cons.prems, of st']
        by (simp add: getData_loop_Cons)
    next
      case (Some e)
      then show ?thesis using True it by (simp add: getData_loop_Cons)
    qed
  qed
qed

lemma getData_never_raises:
  "getData flt rm det gameID fs \<noteq> Some (Raised e, evs)"
  by (simp add: getData_def split: option.splits prod.splits)

lemma getData_iter_exn:
  "getData_iter flt rm det f st = (Some e, st') \<Longrightarrow> f = GetRaises e"
  by (auto simp: getData_iter_def Let_def split: fetch.splits body.splits if_splits prod.splits
      option.splits)

lemma getData_loop_exn:
  "getData_loop flt rm det fs st = Some (Some e, st') \<Longrightarrow> GetRaises e \<in> set fs"
proof (induction fs arbitrary: st)
  case Nil
  then show ?case by (cases "keepGoing st") (simp_all add: getData_loop_Nil getData_loop_stop)
next
  case (Cons g fs)
  show ?case
  proof (cases "keepGoing st")
    case False
    with Cons.prems show ?thesis by (simp add: getData_loop_stop)
  next
    case True
    obtain r st1 where it: "getData_iter flt rm det g st = (r, st1)"
      by (cases "getData_iter flt rm det g st")
    show ?thesis
    proof (cases r)
      case None
      with Cons.prems True it have "getData_loop flt rm det fs st1 = Some (Some e, st')"
        by (simp add: getData_loop_Cons)
      then have "GetRaises e \<in> set fs" by (rule Cons.IH)
      then show ?thesis by simp
    next
      case (Some e')
      with Cons.prems True it have "e' = e" by (simp add: getData_loop_Cons)
      with it Some have "g = GetRaises e" by (simp add: getData_iter_exn)
      then show ?thesis by simp
    qed
  qed
qed

lemma getData_None_only_if_raised:
  assumes "getData flt rm det (Some g) fs = Some (Returned PyNone, evs)"
  shows "\<exists>e. GetRaises e \<in> set fs"
proof (cases "getData_loop flt rm det fs g_init")
  case None
  with assms show ?thesis by (simp add: getData_def)
next
  case (Some res)
  obtain r st where res: "res = (r, st)" by (cases res)
  show ?thesis
  proof (cases r)
    case None
    with assms Some res show ?thesis by (simp add: getData_def)
  next
    case (Some e)
    with \<open>getData_loop flt rm det fs g_init = Some res\<close> res
    have "GetRaises e \<in> set fs" by (simp add: getData_loop_exn)
    then show ?thesis ..
  qed
qed

lemma getData_returns:
  assumes "ends_pagination f"
  shows "\<exists>v evs. getData flt rm det gameID (fs @ [f]) = Some (Returned v, evs)"
proof (cases gameID)
  case None
  then show ?thesis by (simp add: getData_def)
next
  case (Some g)
  from getData_loop_ends [OF assms, of flt rm det fs g_init]
  obtain r st where "getData_loop flt rm det (fs @ [f]) g_init = Some (r, st)" by auto
  then show ?thesis using Some by (cases r) (simp_all add: getData_def)
qed

lemma page_step_name:
  "business_name st \<noteq> None \<Longrightarrow> business_name (page_step det soup st) \<noteq> None"
  by (simp add: page_step_def Let_def split: option.splits)

lemma page_step_first_name:
  "reviews_data st = [] \<Longrightarrow> title_div soup \<noteq> None \<Longrightarrow>
   business_name (page_step det soup st) \<noteq> None"
  by (auto simp: page_step_def Let_def split: option.splits)

lemma page_step_url: "h_url (page_step det soup st) = next_url soup"
  by (simp add: page_step_def Let_def)

lemma gbr_loop_name:
  "business_name st \<noteq> None \<Longrightarrow> gbr_loop det fs st = Some st' \<Longrightarrow> business_name st' \<noteq> None"
proof (induction fs arbitrary: st)
  case Nil
  then show ?case
    by (subst (asm) gbr_loop.simps) (auto split: option.splits if_splits)
next
  case (Cons f fs)
  show ?case
  proof (cases "h_url st = None \<or> h_url st = Some []")
    case True
    with Cons.prems show ?thesis by (simp add: gbr_loop_done)
  next
    case False
    then obtain u where u: "h_url st = Some u" "u \<noteq> []" by auto
    show ?thesis
    proof (cases f)
      case (HGetRaises e)
      with Cons.prems u show ?thesis by (auto simp: gbr_loop_raises)
    next
      case (HPage soup)
      let ?st1 = "page_step det soup (st\<lparr>h_events := h_events st @ [Get u]\<rparr>)"
      from Cons.prems(2) HPage u have "gbr_loop det fs ?st1 = Some st'"
        by (simp add: gbr_loop_page)
      moreover have "business_name ?st1 \<noteq> None"
        using Cons.prems(1) by (intro page_step_name) simp
      ultimately show ?thesis by (rule Cons.IH [rotated])
    qed
  qed
qed

lemma gbr_loop_ends:
  "ends_walk h \<Longrightarrow> gbr_loop det (fs @ [h]) st \<noteq> None"
proof (induction fs arbitrary: st)
  case Nil
  show ?case
  proof (cases "h_url st = None \<or> h_url st = Some []")
    case True
    then show ?thesis by (simp add: gbr_loop_done)
  next
    case False
    then obtain u where u: "h_url st = Some u" "u \<noteq> []" by auto
    show ?thesis
    proof (cases h)
      case (HGetRaises e)
      with u show ?thesis by (simp add: gbr_loop_raises)
    next
      case (HPage soup)
      with Nil have "next_url soup = None \<or> next_url soup = Some []"
        by (simp add: ends_walk_def)
      then show ?thesis using HPage u
        by (simp add: gbr_loop_page gbr_loop_done page_step_url)
    qed
  qed
next
  case (Cons f fs)
  show ?case
  proof (cases "h_url st = None \<or> h_url st = Some []")
    case True
    then show ?thesis by (simp add: gbr_loop_done)
  next
    case False
    then obtain u where u: "h_url st = Some u" "u \<noteq> []" by auto
    show ?thesis
    proof (cases f)
      case (HGetRaises e)
      with u show ?thesis by (simp add: gbr_loop_raises)
    next
      case (HPage soup)
      with u Cons.IH [OF Cons.prems] show ?thesis by (simp add: gbr_loop_page)
    qed
  qed
qed

lemma get_business_reviews_returns:
  assumes "url \<noteq> []" and "title_div soup \<noteq> None" and "ends_walk h"
  shows "\<exists>nm rv evs. get_business_reviews det url (HPage soup # hs @ [h]) =
           Some (Returned (Dict \<lparr>p_name = NameStr nm, p_reviews = rv\<rparr>), evs)"
proof -
  let ?st1 = "page_step det soup ((h_init url)\<lparr>h_events := h_events (h_init url) @ [Get url]\<rparr>)"
  have step: "gbr_loop det (HPage soup # hs @ [h]) (h_init url) = gbr_loop det (hs @ [h]) ?st1"
    using assms(1) by (simp add: gbr_loop_page [of _ url] h_init_def)
  have nm1: "business_name ?st1 \<noteq> None"
    using assms(2) by (intro page_step_first_name) (simp_all add: h_init_def)
  obtain st' where fin: "gbr_loop det (hs @ [h]) ?st1 = Some st'"
    using gbr_loop_ends [OF assms(3), of det hs ?st1] by auto
  with nm1 have "business_name st' \<noteq> None" by (rule gbr_loop_name)
  then obtain nm where "business_name st' = Some nm" by auto
  then show ?thesis using step fin by (simp add: get_business_reviews_def)
qed

lemma getData_loop_prefix:
  "getData_loop flt rm det fs st = Some r \<Longrightarrow> getData_loop flt rm det (fs @ rest) st = Some r"
proof (induction fs arbitrary: st)
  case Nil
  then show ?case by (cases "keepGoing st") (simp_all add: getData_loop_Nil getData_loop_stop)
next
  case (Cons g fs)
  show ?case
  proof (cases "keepGoing st")
    case False
    with Cons.prems show ?thesis by (simp add: getData_loop_stop)
  next
    case True
    obtain x st1 where it: "getData_iter flt rm det g st = (x, st1)"
      by (cases "getData_iter flt rm det g st")
    show ?thesis
    proof (cases x)
      case None
      with Cons.prems True it have "getData_loop flt rm det fs st1 = Some r"
        by (simp add: getData_loop_Cons)
      then have "getData_loop flt rm det (fs @ rest) st1 = Some r" by (rule Cons.IH)
      with True it None show ?thesis by (simp add: getData_loop_Cons)
    next
      case (Some e)
      with Cons.prems True it have "r = (Some e, st1)" by (simp add: getData_loop_Cons)
      with True it Some show ?thesis by (simp add: getData_loop_Cons)
    qed
  qed
qed

lemma getData_prefix:
  assumes "getData flt rm det gameID fs = Some r"
  shows "getData flt rm det gameID (fs @ rest) = Some r"
proof (cases gameID)
  case None
  with assms show ?thesis by (simp add: getData_def)
next
  case (Some g)
  with assms obtain r' where lp: "getData_loop flt rm det fs g_init = Some r'"
    by (cases "getData_loop flt rm det fs g_init") (simp_all add: getData_def)
  then have "getData_loop flt rm det (fs @ rest) g_init = Some r'"
    by (rule getData_loop_prefix)
  with assms lp Some show ?thesis by (simp add: getData_def)
qed

lemma gbr_loop_prefix:
  "gbr_loop det fs st = Some st' \<Longrightarrow> gbr_loop det (fs @ rest) st = Some st'"
proof (induction fs arbitrary: st)
  case Nil
  show ?case
  proof (cases "h_url st = None \<or> h_url st = Some []")
    case True
    with Nil show ?thesis by (simp add: gbr_loop_done)
  next
    case False
    then obtain u where "h_url st = Some u" "u \<noteq> []" by auto
    with Nil show ?thesis by (simp add: gbr_loop_Nil)
  qed
next
  case (Cons f fs)
  show ?case
  proof (cases "h_url st = None \<or> h_url st = Some []")
    case True
    with Cons.prems show ?thesis by (simp add: gbr_loop_done)
  next
    case False
    then obtain u where u: "h_url st = Some u" "u \<noteq> []" by auto
    show ?thesis
    proof (cases f)
      case (HGetRaises e)
      with Cons.prems u show ?thesis by (simp add: gbr_loop_raises)
    next
      case (HPage soup)
      let ?st1 = "page_step det soup (st\<lparr>h_events := h_events st @ [Get u]\<rparr>)"
      from Cons.prems HPage u have "gbr_loop det fs ?st1 = Some st'"
        by (simp add: gbr_loop_page)
      then have "gbr_loop det (fs @ rest) ?st1 = Some st'" by (rule Cons.IH)
      with HPage u show ?thesis by (simp add: gbr_loop_page)
    qed
  qed
qed

lemma get_business_reviews_prefix:
  assumes "get_business_reviews det url fs = Some r"
  shows "get_business_reviews det url (fs @ rest) = Some r"
proof -
  from assms obtain st' where lp: "gbr_loop det fs (h_init url) = Some st'"
    by (cases "gbr_loop det fs (h_init url)") (simp_all add: get_business_reviews_def)
  then have "gbr_loop det (fs @ rest) (h_init url) = Some st'" by (rule gbr_loop_prefix)
  with assms lp show ?thesis by (simp add: get_business_reviews_def)
qed

text \<open>
  Claim C1, as the code has it.  Once the outcomes contain a request that raises or a
  page without comments, \<open>getData\<close> returns, and what follows in the outcomes does not
  matter; it never lets an exception out; what it returns is the dictionary, or \<open>None\<close>,
  and \<open>None\<close> for a given id only when a request raised.  \<open>get_business_reviews\<close> returns
  the dictionary once the first page carries the business title and the outcomes contain
  a request that raises or a page without a next-page link.
\<close>

theorem drivers_turn_errors_into_data:
  "(ends_pagination f \<longrightarrow>
      (\<exists>v evs. \<forall>rest. getData flt rm det gameID (fs @ f # rest) = Some (Returned v, evs)))
   \<and> (\<forall>e evs. getData flt rm det gameID fs \<noteq> Some (Raised e, evs))
   \<and> (getData flt rm det (Some g) fs = Some (Returned PyNone, evs') \<longrightarrow>
        (\<exists>e. GetRaises e \<in> set fs))
   \<and> (url \<noteq> [] \<and> title_div soup \<noteq> None \<and> ends_walk h \<longrightarrow>
        (\<exists>nm rv evs. \<forall>rest. get_business_reviews det url (HPage soup # hs @ h # rest) =
           Some (Returned (Dict \<lparr>p_name = NameStr nm, p_reviews = rv\<rparr>), evs)))"
proof (intro conjI impI allI)
  assume "ends_pagination f"
  then obtain v evs where "getData flt rm det gameID (fs @ [f]) = Some (Returned v, evs)"
    using getData_returns by blast
  then have "getData flt rm det gameID ((fs @ [f]) @ rest) = Some (Returned v, evs)" for rest
    by (rule getData_prefix)
  then show "\<exists>v evs. \<forall>rest. getData flt rm det gameID (fs @ f # rest) = Some (Returned v, evs)"
    by auto
next
  fix e evs show "getData flt rm det gameID fs \<noteq> Some (Raised e, evs)"
    by (rule getData_never_raises)
next
  assume "getData flt rm det (Some g) fs = Some (Returned PyNone, evs')"
  then show "\<exists>e. GetRaises e \<in> set fs" by (rule getData_None_only_if_raised)
next
  assume "url \<noteq> [] \<and> title_div soup \<noteq> None \<and> ends_walk h"
  then obtain nm rv evs where "get_business_reviews det url (HPage soup # hs @ [h]) =
           Some (Returned (Dict \<lparr>p_name = NameStr nm, p_reviews = rv\<rparr>), evs)"
    using get_business_reviews_returns by blast
  then have "get_business_reviews det url ((HPage soup # hs @ [h]) @ rest) =
           Some (Returned (Dict \<lparr>p_name = NameStr nm, p_reviews = rv\<rparr>), evs)" for rest
    by (rule get_business_reviews_prefix)
  then show "\<exists>nm rv evs. \<forall>rest. get_business_reviews det url (HPage soup # hs @ h # rest) =
           Some (Returned (Dict \<lparr>p_name = NameStr nm, p_reviews = rv\<rparr>), evs)"
    by auto
qed

text \<open>
  A game whose second request raises, a game whose second page is empty, a business
  whose second request raises.
\<close>

theorem drivers_turn_errors_into_data_witness:
  "getData ex_flt (\<lambda>t. t) ex_det (Some 13)
       ([ex_page ''A''] @ GetRaises RequestException # [ex_page ''A'', ex_last])
     = Some (Returned PyNone, [Get 1, Sleep, Get 2])
   \<and> getData ex_flt (\<lambda>t. t) ex_det (Some 13) ([ex_page ''A''] @ ex_last # [ex_page ''B''])
     = Some (Returned (Dict (ex_game ''A'')), [Get 1, Sleep, Get 2])
   \<and> getData ex_flt (\<lambda>t. t) ex_det (Some 13) [ex_page ''A'', GetRaises RequestException]
     = Some (Returned PyNone, [Get 1, Sleep, Get 2])
   \<and> GetRaises RequestException \<in> set [ex_page ''A'', GetRaises RequestException]
   \<and> get_business_reviews ex_det ''u1''
        (HPage \<lparr>title_div = Some ''Acme'', cards = [ex_card (Some ''Great'') None],
                next_url = Some ''u2''\<rparr> # [] @ HGetRaises RequestException # [])
     = Some (Returned (Dict (ex_business ''Acme'' ''Great'')), [Get ''u1'', Sleep, Get ''u2''])"
proof -
  let ?fs = "[ex_page ''A'', GetRaises RequestException]"
  let ?soup = "\<lparr>title_div = Some ''Acme'', cards = [ex_card (Some ''Great'') None],
                next_url = Some ''u2''\<rparr>"
  note inst = drivers_turn_errors_into_data
    [where flt = ex_flt and rm = "\<lambda>t. t" and det = ex_det
       and gameID = "Some 13" and g = 13 and evs' = "[Get 1, Sleep, Get 2]"
       and url = "''u1''" and soup = ?soup and h = "HGetRaises RequestException" and hs = "[]"]
  have a1: "ends_pagination (GetRaises RequestException)" by (simp add: ends_pagination_def)
  have a2: "ends_pagination ex_last" by (simp add: ends_pagination_def ex_last_def)
  have b: "getData ex_flt (\<lambda>t. t) ex_det (Some 13) ?fs = Some (Returned PyNone, [Get 1, Sleep, Get 2])"
    by (simp add: ex_defs gd_eval)
  have c: "''u1'' \<noteq> [] \<and> title_div ?soup \<noteq> None \<and> ends_walk (HGetRaises RequestException)"
    by (simp add: ends_walk_def)
  have d1: "getData ex_flt (\<lambda>t. t) ex_det (Some 13)
       ([ex_page ''A''] @ GetRaises RequestException # [ex_page ''A'', ex_last])
     = Some (Returned PyNone, [Get 1, Sleep, Get 2])"
    using inst [where f = "GetRaises RequestException" and fs = "[ex_page ''A'']", THEN conjunct1] a1
    by (simp add: ex_defs gd_eval)
  have d2: "getData ex_flt (\<lambda>t. t) ex_det (Some 13) ([ex_page ''A''] @ ex_last # [ex_page ''B''])
     = Some (Returned (Dict (ex_game ''A'')), [Get 1, Sleep, Get 2])"
    using inst [where f = ex_last and fs = "[ex_page ''A'']", THEN conjunct1] a2
    by (simp add: ex_defs gd_eval)
  have e: "GetRaises RequestException \<in> set ?fs"
    using inst [where f = ex_last and fs = ?fs, THEN conjunct2, THEN conjunct2, THEN conjunct1] b
    by simp
  have f: "get_business_reviews ex_det ''u1'' (HPage ?soup # [] @ HGetRaises RequestException # [])
     = Some (Returned (Dict (ex_business ''Acme'' ''Great'')), [Get ''u1'', Sleep, Get ''u2''])"
    using inst [where f = ex_last and fs = ?fs, THEN conjunct2, THEN conjunct2, THEN conjunct2] c
    by (simp add: ex_defs gbr_eval)
  from b d1 d2 e f show ?thesis by simp
qed

text \<open>
  Claim C1 as stated fails: when the first request raises, \<open>getData\<close> returns \<open>None\<close>, which
  is not a dictionary with a name and a list of records.
\<close>

theorem getData_returns_none_counterexample:
  "getData ex_flt (\<lambda>t. t) ex_det (Some 13) [GetRaises RequestException]
     = Some (Returned PyNone, [Get 1])"
  by (simp add: gd_eval)

section \<open>Language detection in the two filters\<close>

text \<open>
  Claim C5 says that a failure of language detection rejects the record and is never a
  page-level error.  In \<open>getData\<close> only \<open>LangDetectException\<close> is caught per comment.  A
  page whose second comment has no text: \<open>detect\<close> raises on \<open>None\<close>, the page counts as an
  error, the same page is requested three times and the entity is given up, with the
  first comment stored three times and the third never examined.
\<close>

theorem detect_error_counts_as_page_error:
  "getData ex_flt (\<lambda>t. t) ex_det (Some 13)
      (replicate 3 (Response 200 (Xml \<lparr>names = [''Catan''],
         comments = [\<lparr>c_rating = Some ''7'', c_text = Some ''Great''\<rparr>,
                     \<lparr>c_rating = Some ''7'', c_text = None\<rparr>,
                     \<lparr>c_rating = Some ''7'', c_text = Some ''Fine''\<rparr>]\<rparr>)))
     = Some (Returned (Dict \<lparr>p_name = NameList [''Catan''],
               p_reviews = replicate 3 \<lparr>ar_rating = Some ''7'', ar_review_text = Some ''Great''\<rparr>\<rparr>),
             [Get 1, Get 1, Get 1])
   \<and> getData_iter ex_flt (\<lambda>t. t) ex_det
        (Response 200 (Xml \<lparr>names = [''Catan''],
         comments = [\<lparr>c_rating = Some ''7'', c_text = Some ''Great''\<rparr>,
                     \<lparr>c_rating = Some ''7'', c_text = None\<rparr>,
                     \<lparr>c_rating = Some ''7'', c_text = Some ''Fine''\<rparr>]\<rparr>)) g_init
     = (None, \<lparr>pgCount = 1,
               reviewData = [\<lparr>ar_rating = Some ''7'', ar_review_text = Some ''Great''\<rparr>],
               gameName = NameList [''Catan''], keepGoing = True, requestErrorCount = 1,
               g_events = [Get 1]\<rparr>)"
  by (simp add: ex_defs gd_eval numeral_3_eq_3)

lemma review_step_rule:
  "review_step det r rd =
     (case rc_rating r of
        None \<Rightarrow> rd
      | Some rating \<Rightarrow>
          if is_en det (rc_title r) \<or> (\<not> detect_fails det (rc_title r) \<and> is_en det (rc_text r))
          then rd @ [\<lparr>hr_rating = rating, hr_review_title = rc_title r,
                       hr_review_text = rc_text r\<rparr>]
          else rd)"
  by (auto simp: review_step_def english_cond_def detects_en_def is_en_def detect_fails_def Let_def
      split: option.splits sum.splits)

text \<open>
  Claim C6, as the code has it.  A card with a rating is admitted exactly when its title
  is non-empty and detects as English, or detection on the title does not fail (the
  title is missing, empty or in another language) and the text is non-empty and detects
  as English.  A failing detection on the title rejects the card whatever the text is.
  With one of the two fields missing, the card is admitted exactly when the other
  detects as English.
\<close>

theorem admission_by_language:
  "review_step det r rd =
     (case rc_rating r of
        None \<Rightarrow> rd
      | Some rating \<Rightarrow>
          if is_en det (rc_title r) \<or> (\<not> detect_fails det (rc_title r) \<and> is_en det (rc_text r))
          then rd @ [\<lparr>hr_rating = rating, hr_review_title = rc_title r,
                       hr_review_text = rc_text r\<rparr>]
          else rd)
   \<and> (detect_fails det (rc_title r) \<longrightarrow> review_step det r rd = rd)
   \<and> (rc_title r = None \<longrightarrow>
        (review_step det r rd \<noteq> rd \<longleftrightarrow> rc_rating r \<noteq> None \<and> is_en det (rc_text r)))
   \<and> (rc_text r = None \<longrightarrow>
        (review_step det r rd \<noteq> rd \<longleftrightarrow> rc_rating r \<noteq> None \<and> is_en det (rc_title r)))"
proof (intro conjI impI)
  show "review_step det r rd =
     (case rc_rating r of
        None \<Rightarrow> rd
      | Some rating \<Rightarrow>
          if is_en det (rc_title r) \<or> (\<not> detect_fails det (rc_title r) \<and> is_en det (rc_text r))
          then rd @ [\<lparr>hr_rating = rating, hr_review_title = rc_title r,
                       hr_review_text = rc_text r\<rparr>]
          else rd)"
    by (rule review_step_rule)
next
  assume "detect_fails det (rc_title r)"
  then have "\<not> is_en det (rc_title r)"
    by (auto simp: detect_fails_def is_en_def split: option.splits)
  with \<open>detect_fails det (rc_title r)\<close> show "review_step det r rd = rd"
    by (simp add: review_step_rule split: option.splits)
next
  assume "rc_title r = None"
  then show "review_step det r rd \<noteq> rd \<longleftrightarrow> rc_rating r \<noteq> None \<and> is_en det (rc_text r)"
    by (auto simp: review_step_rule is_en_def detect_fails_def split: option.splits)
next
  assume "rc_text r = None"
  then show "review_step det r rd \<noteq> rd \<longleftrightarrow> rc_rating r \<noteq> None \<and> is_en det (rc_title r)"
    by (auto simp: review_step_rule is_en_def detect_fails_def split: option.splits)
qed

text \<open>The example of the specification and the cases with both fields present.\<close>

theorem admission_by_language_witness:
  "review_step ex_det (ex_card (Some ''Great'') None) [] =
     [\<lparr>hr_rating = ''5'', hr_review_title = Some ''Great'', hr_review_text = None\<rparr>]
   \<and> review_step ex_det (ex_card (Some ''Schlecht'') None) [] = []
   \<and> review_step ex_det (ex_card (Some ''Schlecht'') (Some ''Great'')) [] =
     [\<lparr>hr_rating = ''5'', hr_review_title = Some ''Schlecht'', hr_review_text = Some ''Great''\<rparr>]
   \<and> review_step ex_det (ex_card (Some ''!!'') (Some ''Great'')) [] = []
   \<and> review_step ex_det (ex_card None (Some ''Great'')) [] =
     [\<lparr>hr_rating = ''5'', hr_review_title = None, hr_review_text = Some ''Great''\<rparr>]"
proof -
  have f: "detect_fails ex_det (rc_title (ex_card (Some ''!!'') (Some ''Great'')))"
    by (simp add: detect_fails_def ex_det_def ex_card_def)
  have a: "review_step ex_det (ex_card (Some ''Great'') None) [] =
     [\<lparr>hr_rating = ''5'', hr_review_title = Some ''Great'', hr_review_text = None\<rparr>]"
    using admission_by_language [of ex_det "ex_card (Some ''Great'') None" "[]"]
    by (simp add: ex_card_def ex_det_def is_en_def detect_fails_def)
  have b: "review_step ex_det (ex_card (Some ''Schlecht'') None) [] = []"
    using admission_by_language [of ex_det "ex_card (Some ''Schlecht'') None" "[]"]
    by (simp add: ex_card_def ex_det_def is_en_def detect_fails_def)
  have c: "review_step ex_det (ex_card (Some ''Schlecht'') (Some ''Great'')) [] =
     [\<lparr>hr_rating = ''5'', hr_review_title = Some ''Schlecht'', hr_review_text = Some ''Great''\<rparr>]"
    using admission_by_language [of ex_det "ex_card (Some ''Schlecht'') (Some ''Great'')" "[]"]
    by (simp add: ex_card_def ex_det_def is_en_def detect_fails_def)
  have d: "review_step ex_det (ex_card (Some ''!!'') (Some ''Great'')) [] = []"
    by (rule admission_by_language [of ex_det "ex_card (Some ''!!'') (Some ''Great'')" "[]",
          THEN conjunct2, THEN conjunct1, THEN mp, OF f])
  have e: "review_step ex_det (ex_card None (Some ''Great'')) [] =
     [\<lparr>hr_rating = ''5'', hr_review_title = None, hr_review_text = Some ''Great''\<rparr>]"
    using admission_by_language [of ex_det "ex_card None (Some ''Great'')" "[]"]
    by (simp add: ex_card_def ex_det_def is_en_def detect_fails_def)
  from a b c d e show ?thesis by simp
qed

text \<open>
  Claim C6 as stated fails: both fields are present, the text detects as English,
  detection on the title fails, and the card is not admitted.
\<close>

theorem title_failure_rejects_english_body_counterexample:
  "is_en ex_det (Some ''Great service'')
   \<and> detect_fails ex_det (Some ''!!'')
   \<and> review_step ex_det (ex_card (Some ''!!'') (Some ''Great service'')) [] = []"
  by (simp add: ex_defs is_en_def detect_fails_def review_step_def english_cond_def detects_en_def)

section \<open>Capture of the business name\<close>

text \<open>
  Claim C8 says that the name is captured from the first page only.
  \<open>get_business_reviews\<close> tests \<open>not reviews_data\<close> instead: when the first page yields no
  accepted review, the name is taken again from the second page.
\<close>

theorem business_name_taken_from_later_page:
  "get_business_reviews ex_det ''u1''
      [ex_soup ''Acme'' (Some ''Schlecht'') (Some ''u2''), ex_soup ''Other'' (Some ''Great'') None]
     = Some (Returned (Dict (ex_business ''Other'' ''Great'')),
             [Get ''u1'', Sleep, Get ''u2'', Sleep])"
  by (simp add: ex_defs gbr_eval)

section \<open>The buffer and the checkpoint file\<close>

lemma buffer_ok_append: "buffer_ok (buf @ [p]) \<longleftrightarrow> buffer_ok buf \<and> p_reviews p \<noteq> []"
  by (auto simp: buffer_ok_def)

lemma main_body_empty: "p_reviews gr = [] \<Longrightarrow> main_body cfg (Dict gr) st = st"
  by (simp add: main_body_def)

lemma main_body_PyNone: "main_body cfg PyNone st = st"
  by (simp add: main_body_def)

lemma main_body_nonempty:
  "p_reviews gr \<noteq> [] \<Longrightarrow>
   main_body cfg (Dict gr) st =
     (if int (checkCount st + length (p_reviews gr)) \<ge> checkThreshold cfg
      then st\<lparr>totalSaved := totalSaved st + length (p_reviews gr),
              all_reviews := all_reviews st @ [gr],
              checkCount := 0,
              writes := writes st @ [(outputFile cfg, all_reviews st @ [gr])]\<rparr>
      else st\<lparr>totalSaved := totalSaved st + length (p_reviews gr),
              all_reviews := all_reviews st @ [gr],
              checkCount := checkCount st + length (p_reviews gr)\<rparr>)"
  by (simp add: main_body_def flushBuffer_def Let_def)

lemma buffer_ok_main_body:
  "buffer_ok (all_reviews st) \<Longrightarrow> buffer_ok (all_reviews (main_body cfg v st))"
proof (cases v)
  case PyNone
  then show "buffer_ok (all_reviews st) \<Longrightarrow> ?thesis" by (simp add: main_body_PyNone)
next
  case (Dict gr)
  assume ok: "buffer_ok (all_reviews st)"
  show ?thesis
  proof (cases "p_reviews gr = []")
    case True
    then show ?thesis using ok Dict by (simp add: main_body_empty)
  next
    case False
    then show ?thesis using ok Dict by (simp add: main_body_nonempty buffer_ok_append)
  qed
qed

lemma buffer_ok_main_loop:
  "buffer_ok (all_reviews st) \<Longrightarrow> main_loop flt rm det cfg i rows st = Some (x, st') \<Longrightarrow>
   buffer_ok (all_reviews st')"
proof (induction rows arbitrary: i st)
  case Nil
  then show ?case by simp
next
  case (Cons row rows)
  obtain gameID fs where row: "row = (gameID, fs)" by (cases row)
  show ?case
  proof (cases "skip_row cfg i gameID")
    case True
    with Cons.prems row have "main_loop flt rm det cfg (i + 1) rows st = Some (x, st')" by simp
    with Cons.prems(1) show ?thesis by (rule Cons.IH)
  next
    case False
    show ?thesis
    proof (cases "getData flt rm det (Some gameID) fs")
      case None
      with Cons.prems False row show ?thesis by simp
    next
      case (Some res)
      obtain oc evs where res: "res = (oc, evs)" by (cases res)
      show ?thesis
      proof (cases oc)
        case (Raised e)
        with Cons.prems False row Some res show ?thesis by simp
      next
        case (Returned v)
        with Cons.prems False row Some res
        have "main_loop flt rm det cfg (i + 1) rows (main_body cfg v st) = Some (x, st')" by simp
        moreover have "buffer_ok (all_reviews (main_body cfg v st))"
          using Cons.prems(1) by (rule buffer_ok_main_body)
        ultimately show ?thesis by (rule Cons.IH [rotated])
      qed
    qed
  qed
qed

lemma bgg_run_cases:
  "bgg_run flt rm det cfg rows st = Some (x, st') \<Longrightarrow>
   (x \<noteq> None \<and> main_loop flt rm det cfg 0 rows st = Some (x, st'))
   \<or> (x = None \<and> (\<exists>st1. main_loop flt rm det cfg 0 rows st = Some (None, st1) \<and> st' = flushBuffer cfg st1))"
  by (auto simp: bgg_run_def split: option.splits prod.splits)

lemma buffer_ok_bgg_run:
  assumes "buffer_ok (all_reviews st)" and "bgg_run flt rm det cfg rows st = Some (x, st')"
  shows "buffer_ok (all_reviews st')"
  using bgg_run_cases [OF assms(2)] buffer_ok_main_loop [OF assms(1)]
  by (auto simp: flushBuffer_def)

lemma tp_body_empty: "p_reviews r = [] \<Longrightarrow> tp_body (Dict r) ts = ts"
  by (simp add: tp_body_def)

lemma buffer_ok_tp_body:
  "buffer_ok (tp_all_reviews ts) \<Longrightarrow> buffer_ok (tp_all_reviews (tp_body v ts))"
  by (cases v) (simp_all add: tp_body_def buffer_ok_append)

lemma buffer_ok_tp_loop:
  "buffer_ok (tp_all_reviews ts) \<Longrightarrow> tp_loop det rows ts = Some (y, ts') \<Longrightarrow>
   buffer_ok (tp_all_reviews ts')"
proof (induction rows arbitrary: ts)
  case Nil
  then show ?case by simp
next
  case (Cons row rows)
  obtain url fs where row: "row = (url, fs)" by (cases row)
  show ?case
  proof (cases "get_business_reviews det url fs")
    case None
    with Cons.prems row show ?thesis by simp
  next
    case (Some res)
    obtain oc evs where res: "res = (oc, evs)" by (cases res)
    show ?thesis
    proof (cases oc)
      case (Raised e)
      with Cons.prems row Some res show ?thesis by simp
    next
      case (Returned v)
      with Cons.prems row Some res
      have "tp_loop det rows (tp_body v ts) = Some (y, ts')" by simp
      moreover have "buffer_ok (tp_all_reviews (tp_body v ts))"
        using Cons.prems(1) by (rule buffer_ok_tp_body)
      ultimately show ?thesis by (rule Cons.IH [rotated])
    qed
  qed
qed

lemma buffer_ok_cleanup:
  "buffer_ok (tp_all_reviews (cleanup clean ts)) = buffer_ok (tp_all_reviews ts)"
  by (simp add: cleanup_def buffer_ok_def list_all_iff)

lemma tp_run_cases:
  "tp_run det clean filename urls ts = Some (y, ts') \<Longrightarrow>
   (y \<noteq> None \<and> tp_loop det (rev urls) ts = Some (y, ts'))
   \<or> (y = None \<and> (\<exists>ts1. tp_loop det (rev urls) ts = Some (None, ts1)
         \<and> ts' = save_file filename (cleanup clean ts1)))"
  by (auto simp: tp_run_def split: option.splits prod.splits)

lemma buffer_ok_tp_run:
  assumes "buffer_ok (tp_all_reviews ts)" and "tp_run det clean filename urls ts = Some (y, ts')"
  shows "buffer_ok (tp_all_reviews ts')"
  using tp_run_cases [OF assms(2)] buffer_ok_tp_loop [OF assms(1)]
  by (auto simp: save_file_def buffer_ok_cleanup)

text \<open>
  Claim C9.  In both notebooks a parent result without accepted records leaves the buffer
  as it is, each pass through the loop body keeps the property that every stored parent
  result has at least one accepted record, and so does every run that starts with the
  empty buffer, wherever it ends.
\<close>

theorem buffer_holds_only_nonempty_results:
  "(p_reviews gr = [] \<longrightarrow> main_body cfg (Dict gr) st = st)
   \<and> (p_reviews r = [] \<longrightarrow> tp_body (Dict r) ts = ts)
   \<and> (buffer_ok (all_reviews st) \<longrightarrow> buffer_ok (all_reviews (main_body cfg gameReviews st)))
   \<and> (buffer_ok (tp_all_reviews ts) \<longrightarrow> buffer_ok (tp_all_reviews (tp_body reviews ts)))
   \<and> (bgg_run flt rm det cfg rows b_init = Some (x, st') \<longrightarrow> buffer_ok (all_reviews st'))
   \<and> (tp_run det clean filename business_urls t_init = Some (y, ts') \<longrightarrow>
        buffer_ok (tp_all_reviews ts'))"
proof (intro conjI impI)
  assume "p_reviews gr = []"
  then show "main_body cfg (Dict gr) st = st" by (rule main_body_empty)
next
  assume "p_reviews r = []"
  then show "tp_body (Dict r) ts = ts" by (rule tp_body_empty)
next
  assume "buffer_ok (all_reviews st)"
  then show "buffer_ok (all_reviews (main_body cfg gameReviews st))"
    by (rule buffer_ok_main_body)
next
  assume "buffer_ok (tp_all_reviews ts)"
  then show "buffer_ok (tp_all_reviews (tp_body reviews ts))"
    by (rule buffer_ok_tp_body)
next
  assume run: "bgg_run flt rm det cfg rows b_init = Some (x, st')"
  have "buffer_ok (all_reviews b_init)" by (simp add: b_init_def buffer_ok_def)
  then show "buffer_ok (all_reviews st')" using run by (rule buffer_ok_bgg_run)
next
  assume run: "tp_run det clean filename business_urls t_init = Some (y, ts')"
  have "buffer_ok (tp_all_reviews t_init)" by (simp add: t_init_def buffer_ok_def)
  then show "buffer_ok (tp_all_reviews ts')" using run by (rule buffer_ok_tp_run)
qed

text \<open>The theorem at an empty and a non-empty result, and at one run of each notebook.\<close>

theorem buffer_holds_only_nonempty_results_witness:
  "main_body ex_cfg (Dict \<lparr>p_name = NameList [''Go''], p_reviews = []\<rparr>) b_init = b_init
   \<and> tp_body (Dict \<lparr>p_name = NameStr ''Acme'', p_reviews = []\<rparr>) t_init = t_init
   \<and> buffer_ok (all_reviews (main_body ex_cfg (Dict (ex_game ''A'')) b_init))
   \<and> buffer_ok (tp_all_reviews (tp_body (Dict (ex_business ''Acme'' ''Great'')) t_init))
   \<and> bgg_run ex_flt (\<lambda>t. t) ex_det ex_cfg [(1, [ex_page ''A'', ex_last]), (2, [ex_last])] b_init
     = Some (None, \<lparr>all_reviews = [ex_game ''A''], totalSaved = 1, checkCount = 1,
                    writes = [(''bgg.json'', [ex_game ''A''])]\<rparr>)
   \<and> tp_run ex_det (\<lambda>s. s) ''tp.json''
        [(''u1'', [ex_soup ''Acme'' (Some ''Great'') None]),
         (''u2'', [ex_soup ''Auto'' (Some ''Schlecht'') None])] t_init
     = Some (None, \<lparr>tp_all_reviews = [ex_business ''Acme'' ''Great''],
                    tp_writes = [(''tp.json'', [ex_business ''Acme'' ''Great''])]\<rparr>)
   \<and> buffer_ok [ex_game ''A'']
   \<and> buffer_ok [ex_business ''Acme'' ''Great'']"
proof -
  let ?rows = "[(1, [ex_page ''A'', ex_last]), (2, [ex_last])]"
  let ?bst = "\<lparr>all_reviews = [ex_game ''A''], totalSaved = 1, checkCount = 1,
               writes = [(''bgg.json'', [ex_game ''A''])]\<rparr>"
  let ?urls = "[(''u1'', [ex_soup ''Acme'' (Some ''Great'') None]),
                (''u2'', [ex_soup ''Auto'' (Some ''Schlecht'') None])]"
  let ?tst = "\<lparr>tp_all_reviews = [ex_business ''Acme'' ''Great''],
               tp_writes = [(''tp.json'', [ex_business ''Acme'' ''Great''])]\<rparr>"
  have b: "bgg_run ex_flt (\<lambda>t. t) ex_det ex_cfg ?rows b_init = Some (None, ?bst)"
    by (simp add: ex_defs bgg_eval)
  have t: "tp_run ex_det (\<lambda>s. s) ''tp.json'' ?urls t_init = Some (None, ?tst)"
    by (simp add: ex_defs tp_eval)
  have e: "buffer_ok (all_reviews b_init)" "buffer_ok (tp_all_reviews t_init)"
    by (simp_all add: b_init_def t_init_def buffer_ok_def)
  note inst = buffer_holds_only_nonempty_results
    [where gr = "\<lparr>p_name = NameList [''Go''], p_reviews = []\<rparr>" and cfg = ex_cfg and st = b_init
       and r = "\<lparr>p_name = NameStr ''Acme'', p_reviews = []\<rparr>" and ts = t_init
       and gameReviews = "Dict (ex_game ''A'')" and reviews = "Dict (ex_business ''Acme'' ''Great'')"
       and flt = ex_flt and rm = "\<lambda>t. t" and det = ex_det and rows = ?rows and x = None
       and st' = ?bst and clean = "\<lambda>s. s" and filename = "''tp.json''"
       and business_urls = ?urls and y = None and ts' = ?tst]
  show ?thesis using inst b t e by simp
qed

lemma nrecords_append: "nrecords (buf @ [p]) = nrecords buf + length (p_reviews p)"
  by (simp add: nrecords_def)

lemma last_flushed_append: "last_flushed (st\<lparr>writes := ws @ [(f, buf)]\<rparr>) = buf"
  by (cases ws) (simp_all add: last_flushed_def)

lemma last_flushed_cong: "writes st' = writes st \<Longrightarrow> last_flushed st' = last_flushed st"
  by (simp add: last_flushed_def)

text \<open>
  The relation between the counter, the buffer and the file kept by the main loop: the
  counter is the number of buffered records not yet written, it is below the threshold
  or zero, and only the output file is written.
\<close>

lemma flush_inv_main_body:
  assumes "nrecords (all_reviews st) = nrecords (last_flushed st) + checkCount st"
    and "int (checkCount st) < checkThreshold cfg \<or> checkCount st = 0"
    and "\<forall>w \<in> set (writes st). fst w = outputFile cfg"
  shows "nrecords (all_reviews (main_body cfg v st)) =
           nrecords (last_flushed (main_body cfg v st)) + checkCount (main_body cfg v st)
         \<and> (int (checkCount (main_body cfg v st)) < checkThreshold cfg
              \<or> checkCount (main_body cfg v st) = 0)
         \<and> (\<forall>w \<in> set (writes (main_body cfg v st)). fst w = outputFile cfg)"
proof (cases v)
  case PyNone
  then show ?thesis using assms by (simp add: main_body_PyNone)
next
  case (Dict gr)
  show ?thesis
  proof (cases "p_reviews gr = []")
    case True
    then show ?thesis using assms Dict by (simp add: main_body_empty)
  next
    case False
    show ?thesis
    proof (cases "int (checkCount st + length (p_reviews gr)) \<ge> checkThreshold cfg")
      case True
      then have "main_body cfg v st =
          st\<lparr>totalSaved := totalSaved st + length (p_reviews gr),
              all_reviews := all_reviews st @ [gr],
              checkCount := 0,
              writes := writes st @ [(outputFile cfg, all_reviews st @ [gr])]\<rparr>"
        using False Dict by (simp add: main_body_nonempty)
      then show ?thesis using assms(3) by (simp add: last_flushed_append)
    next
      case nf: False
      then have eq: "main_body cfg v st =
          st\<lparr>totalSaved := totalSaved st + length (p_reviews gr),
              all_reviews := all_reviews st @ [gr],
              checkCount := checkCount st + length (p_reviews gr)\<rparr>"
        using False Dict by (simp add: main_body_nonempty)
      have "last_flushed (main_body cfg v st) = last_flushed st"
        by (rule last_flushed_cong) (simp add: eq)
      then show ?thesis using assms nf by (simp add: eq nrecords_append)
    qed
  qed
qed

lemma flush_inv_main_loop:
  "nrecords (all_reviews st) = nrecords (last_flushed st) + checkCount st \<Longrightarrow>
   int (checkCount st) < checkThreshold cfg \<or> checkCount st = 0 \<Longrightarrow>
   \<forall>w \<in> set (writes st). fst w = outputFile cfg \<Longrightarrow>
   main_loop flt rm det cfg i rows st = Some (x, st') \<Longrightarrow>
   nrecords (all_reviews st') = nrecords (last_flushed st') + checkCount st'
   \<and> (int (checkCount st') < checkThreshold cfg \<or> checkCount st' = 0)
   \<and> (\<forall>w \<in> set (writes st'). fst w = outputFile cfg)"
proof (induction rows arbitrary: i st)
  case Nil
  then show ?case by simp
next
  case (Cons row rows)
  obtain gameID fs where row: "row = (gameID, fs)" by (cases row)
  show ?case
  proof (cases "skip_row cfg i gameID")
    case True
    with Cons.prems(4) row have "main_loop flt rm det cfg (i + 1) rows st = Some (x, st')" by simp
    with Cons.prems(1-3) show ?thesis by (rule Cons.IH)
  next
    case False
    show ?thesis
    proof (cases "getData flt rm det (Some gameID) fs")
      case None
      with Cons.prems(4) False row show ?thesis by simp
    next
      case (Some res)
      obtain oc evs where res: "res = (oc, evs)" by (cases res)
      show ?thesis
      proof (cases oc)
        case (Raised e)
        with Cons.prems False row Some res show ?thesis by simp
      next
        case (Returned v)
        with Cons.prems(4) False row Some res
        have run: "main_loop flt rm det cfg (i + 1) rows (main_body cfg v st) = Some (x, st')"
          by simp
        note step = flush_inv_main_body [OF Cons.prems(1-3), of v]
        show ?thesis
          by (rule Cons.IH [OF step [THEN conjunct1] step [THEN conjunct2, THEN conjunct1]
                step [THEN conjunct2, THEN conjunct2] run])
      qed
    qed
  qed
qed

lemma tp_body_writes: "tp_writes (tp_body v ts) = tp_writes ts"
  by (cases v) (simp_all add: tp_body_def)

lemma tp_loop_writes:
  "tp_loop det rows ts = Some (y, ts') \<Longrightarrow> tp_writes ts' = tp_writes ts"
proof (induction rows arbitrary: ts)
  case Nil
  then show ?case by simp
next
  case (Cons row rows)
  obtain url fs where row: "row = (url, fs)" by (cases row)
  show ?case
  proof (cases "get_business_reviews det url fs")
    case None
    with Cons.prems row show ?thesis by simp
  next
    case (Some res)
    obtain oc evs where res: "res = (oc, evs)" by (cases res)
    show ?thesis
    proof (cases oc)
      case (Raised e)
      with Cons.prems row Some res show ?thesis by simp
    next
      case (Returned v)
      with Cons.prems row Some res
      have "tp_loop det rows (tp_body v ts) = Some (y, ts')" by simp
      then have "tp_writes ts' = tp_writes (tp_body v ts)" by (rule Cons.IH)
      then show ?thesis by (simp add: tp_body_writes)
    qed
  qed
qed

text \<open>
  Claim C4, as the code has it.  In the BoardGameGeek main loop, right after a parent
  result is appended, the whole buffer is written to the output file when the records
  appended since the last write have reached \<open>checkThreshold\<close>, and the counter restarts
  at zero; so after every row the counter equals the number of buffered records not yet
  written, it is below the threshold or zero, and nothing but the output file has been
  written.  A completed run ends with one more write of the whole buffer to that file.
  The TrustPilot notebook has no threshold: a completed run writes the whole buffer
  exactly once, at the end.
\<close>

theorem flush_on_threshold_and_at_completion:
  "(p_reviews gr \<noteq> [] \<longrightarrow>
      main_body cfg (Dict gr) st =
        (if int (checkCount st + length (p_reviews gr)) \<ge> checkThreshold cfg
         then st\<lparr>totalSaved := totalSaved st + length (p_reviews gr),
                 all_reviews := all_reviews st @ [gr],
                 checkCount := 0,
                 writes := writes st @ [(outputFile cfg, all_reviews st @ [gr])]\<rparr>
         else st\<lparr>totalSaved := totalSaved st + length (p_reviews gr),
                 all_reviews := all_reviews st @ [gr],
                 checkCount := checkCount st + length (p_reviews gr)\<rparr>))
   \<and> (main_loop flt rm det cfg 0 rows b_init = Some (x, st') \<longrightarrow>
        nrecords (all_reviews st') = nrecords (last_flushed st') + checkCount st'
        \<and> (int (checkCount st') < checkThreshold cfg \<or> checkCount st' = 0)
        \<and> (\<forall>w \<in> set (writes st'). fst w = outputFile cfg))
   \<and> (bgg_run flt rm det cfg rows b_init = Some (None, st'') \<longrightarrow>
        writes st'' \<noteq> [] \<and> last (writes st'') = (outputFile cfg, all_reviews st'')
        \<and> (\<forall>w \<in> set (writes st''). fst w = outputFile cfg))
   \<and> (tp_run det clean filename business_urls t_init = Some (None, ts) \<longrightarrow>
        tp_writes ts = [(filename, tp_all_reviews ts)])"
proof (intro conjI impI)
  assume "p_reviews gr \<noteq> []"
  then show "main_body cfg (Dict gr) st =
        (if int (checkCount st + length (p_reviews gr)) \<ge> checkThreshold cfg
         then st\<lparr>totalSaved := totalSaved st + length (p_reviews gr),
                 all_reviews := all_reviews st @ [gr],
                 checkCount := 0,
                 writes := writes st @ [(outputFile cfg, all_reviews st @ [gr])]\<rparr>
         else st\<lparr>totalSaved := totalSaved st + length (p_reviews gr),
                 all_reviews := all_reviews st @ [gr],
                 checkCount := checkCount st + length (p_reviews gr)\<rparr>)"
    by (rule main_body_nonempty)
next
  have i0: "nrecords (all_reviews b_init) = nrecords (last_flushed b_init) + checkCount b_init"
    "int (checkCount b_init) < checkThreshold cfg \<or> checkCount b_init = 0"
    "\<forall>w \<in> set (writes b_init). fst w = outputFile cfg"
    by (simp_all add: b_init_def nrecords_def last_flushed_def)
  {
    assume run: "main_loop flt rm det cfg 0 rows b_init = Some (x, st')"
    note inv = flush_inv_main_loop [OF i0 run]
    from inv show "nrecords (all_reviews st') = nrecords (last_flushed st') + checkCount st'"
      by (rule conjunct1)
    from inv show "int (checkCount st') < checkThreshold cfg \<or> checkCount st' = 0"
      by (rule conjunct2 [THEN conjunct1])
    from inv show "\<forall>w \<in> set (writes st'). fst w = outputFile cfg"
      by (rule conjunct2 [THEN conjunct2])
  }
  {
    assume run: "bgg_run flt rm det cfg rows b_init = Some (None, st'')"
    then obtain st1 where ml: "main_loop flt rm det cfg 0 rows b_init = Some (None, st1)"
      and fl: "st'' = flushBuffer cfg st1"
      using bgg_run_cases [OF run] by blast
    note inv = flush_inv_main_loop [OF i0 ml]
    show "writes st'' \<noteq> []" by (simp add: fl flushBuffer_def)
    show "last (writes st'') = (outputFile cfg, all_reviews st'')"
      by (simp add: fl flushBuffer_def)
    show "\<forall>w \<in> set (writes st''). fst w = outputFile cfg"
      using inv [THEN conjunct2, THEN conjunct2] by (simp add: fl flushBuffer_def)
  }
next
  assume run: "tp_run det clean filename business_urls t_init = Some (None, ts)"
  then obtain ts1 where tl: "tp_loop det (rev business_urls) t_init = Some (None, ts1)"
    and sv: "ts = save_file filename (cleanup clean ts1)"
    using tp_run_cases [OF run] by blast
  have "tp_writes ts1 = []" using tp_loop_writes [OF tl] by (simp add: t_init_def)
  then show "tp_writes ts = [(filename, tp_all_reviews ts)]"
    by (simp add: sv save_file_def cleanup_def)
qed

lemma ex_main_loop:
  "main_loop ex_flt (\<lambda>t. t) ex_det ex_cfg 0
      [(1, [ex_page ''A'', ex_last]), (2, [ex_page ''B'', ex_last]), (3, [ex_page ''C'', ex_last])]
      b_init
    = Some (None, \<lparr>all_reviews = [ex_game ''A'', ex_game ''B'', ex_game ''C''], totalSaved = 3,
                   checkCount = 1,
                   writes = [(''bgg.json'', [ex_game ''A'', ex_game ''B''])]\<rparr>)"
  by (simp add: ex_defs bgg_eval)

lemma ex_tp_run:
  "tp_run ex_det (\<lambda>s. s) ''tp.json''
      [(''u1'', [ex_soup ''Acme'' (Some ''Great'') None]),
       (''u2'', [ex_soup ''Auto'' (Some ''Fine'') None])] t_init
    = Some (None, \<lparr>tp_all_reviews = [ex_business ''Auto'' ''Fine'', ex_business ''Acme'' ''Great''],
                   tp_writes = [(''tp.json'',
                      [ex_business ''Auto'' ''Fine'', ex_business ''Acme'' ''Great''])]\<rparr>)"
  by (simp add: ex_defs tp_eval)

text \<open>Three games with one record each and threshold 2; two businesses.\<close>

theorem flush_on_threshold_and_at_completion_witness:
  "main_body ex_cfg (Dict (ex_game ''B''))
      \<lparr>all_reviews = [ex_game ''A''], totalSaved = 1, checkCount = 1, writes = []\<rparr>
     = \<lparr>all_reviews = [ex_game ''A'', ex_game ''B''], totalSaved = 2, checkCount = 0,
        writes = [(''bgg.json'', [ex_game ''A'', ex_game ''B''])]\<rparr>
   \<and> main_loop ex_flt (\<lambda>t. t) ex_det ex_cfg 0
      [(1, [ex_page ''A'', ex_last]), (2, [ex_page ''B'', ex_last]), (3, [ex_page ''C'', ex_last])]
      b_init
     = Some (None, \<lparr>all_reviews = [ex_game ''A'', ex_game ''B'', ex_game ''C''], totalSaved = 3,
                   checkCount = 1,
                   writes = [(''bgg.json'', [ex_game ''A'', ex_game ''B''])]\<rparr>)
   \<and> nrecords [ex_game ''A'', ex_game ''B'', ex_game ''C''] = nrecords [ex_game ''A'', ex_game ''B''] + 1
   \<and> bgg_run ex_flt (\<lambda>t. t) ex_det ex_cfg
      [(1, [ex_page ''A'', ex_last]), (2, [ex_page ''B'', ex_last]), (3, [ex_page ''C'', ex_last])]
      b_init
     = Some (None, \<lparr>all_reviews = [ex_game ''A'', ex_game ''B'', ex_game ''C''], totalSaved = 3,
                   checkCount = 1,
                   writes = [(''bgg.json'', [ex_game ''A'', ex_game ''B'']),
                             (''bgg.json'', [ex_game ''A'', ex_game ''B'', ex_game ''C''])]\<rparr>)
   \<and> tp_run ex_det (\<lambda>s. s) ''tp.json''
      [(''u1'', [ex_soup ''Acme'' (Some ''Great'') None]),
       (''u2'', [ex_soup ''Auto'' (Some ''Fine'') None])] t_init
     = Some (None, \<lparr>tp_all_reviews = [ex_business ''Auto'' ''Fine'', ex_business ''Acme'' ''Great''],
                   tp_writes = [(''tp.json'',
                      [ex_business ''Auto'' ''Fine'', ex_business ''Acme'' ''Great''])]\<rparr>)"
proof -
  let ?rows = "[(1, [ex_page ''A'', ex_last]), (2, [ex_page ''B'', ex_last]),
                (3, [ex_page ''C'', ex_last])]"
  let ?st1 = "\<lparr>all_reviews = [ex_game ''A'', ex_game ''B'', ex_game ''C''], totalSaved = 3,
                   checkCount = 1,
                   writes = [(''bgg.json'', [ex_game ''A'', ex_game ''B''])]\<rparr>"
  let ?st2 = "\<lparr>all_reviews = [ex_game ''A'', ex_game ''B'', ex_game ''C''], totalSaved = 3,
                   checkCount = 1,
                   writes = [(''bgg.json'', [ex_game ''A'', ex_game ''B'']),
                             (''bgg.json'', [ex_game ''A'', ex_game ''B'', ex_game ''C''])]\<rparr>"
  let ?urls = "[(''u1'', [ex_soup ''Acme'' (Some ''Great'') None]),
       (''u2'', [ex_soup ''Auto'' (Some ''Fine'') None])]"
  let ?ts = "\<lparr>tp_all_reviews = [ex_business ''Auto'' ''Fine'', ex_business ''Acme'' ''Great''],
                   tp_writes = [(''tp.json'',
                      [ex_business ''Auto'' ''Fine'', ex_business ''Acme'' ''Great''])]\<rparr>"
  have ne: "p_reviews (ex_game ''B'') \<noteq> []" by (simp add: ex_game_def)
  have br: "bgg_run ex_flt (\<lambda>t. t) ex_det ex_cfg ?rows b_init = Some (None, ?st2)"
    unfolding bgg_run_def ex_main_loop by (simp add: flushBuffer_def ex_cfg_def)
  note inst = flush_on_threshold_and_at_completion
    [where gr = "ex_game ''B''" and cfg = ex_cfg
       and st = "\<lparr>all_reviews = [ex_game ''A''], totalSaved = 1, checkCount = 1, writes = []\<rparr>"
       and flt = ex_flt and rm = "\<lambda>t. t" and det = ex_det and rows = ?rows and x = None
       and st' = ?st1 and st'' = ?st2 and clean = "\<lambda>s. s" and filename = "''tp.json''"
       and business_urls = ?urls and ts = ?ts]
  have a: "main_body ex_cfg (Dict (ex_game ''B''))
      \<lparr>all_reviews = [ex_game ''A''], totalSaved = 1, checkCount = 1, writes = []\<rparr>
     = \<lparr>all_reviews = [ex_game ''A'', ex_game ''B''], totalSaved = 2, checkCount = 0,
        writes = [(''bgg.json'', [ex_game ''A'', ex_game ''B''])]\<rparr>"
    using inst [THEN conjunct1] ne by (simp add: ex_cfg_def ex_game_def)
  have b: "nrecords [ex_game ''A'', ex_game ''B'', ex_game ''C''] =
           nrecords [ex_game ''A'', ex_game ''B''] + 1"
    using inst [THEN conjunct2, THEN conjunct1] ex_main_loop by (simp add: last_flushed_def)
  from a b br ex_main_loop ex_tp_run show ?thesis by simp
qed

text \<open>
  Claim C4 as stated fails for the TrustPilot notebook: after the first business one
  record is buffered, after the second two, and the only write is the one at the end;
  no threshold of 1 or 2 records was honoured.
\<close>

theorem tp_threshold_flush_counterexample:
  "tp_run ex_det (\<lambda>s. s) ''tp.json''
      [(''u1'', [ex_soup ''Acme'' (Some ''Great'') None]),
       (''u2'', [ex_soup ''Auto'' (Some ''Fine'') None])] t_init
    = Some (None, \<lparr>tp_all_reviews = [ex_business ''Auto'' ''Fine'', ex_business ''Acme'' ''Great''],
                   tp_writes = [(''tp.json'',
                      [ex_business ''Auto'' ''Fine'', ex_business ''Acme'' ''Great''])]\<rparr>)
   \<and> nrecords [ex_business ''Auto'' ''Fine''] = 1"
  by (simp add: ex_defs tp_eval nrecords_def)

section \<open>Resume mode\<close>

text \<open>
  Claim C3 says that in resume mode a row is skipped exactly when its index is before
  the cutoff and its id is not among \<open>reprocessIDs\<close>.  The filter joins the two tests with
  \<open>or\<close>: with cutoff 2 and no ids listed, the row at index 2 is skipped, and so is every
  row of the run.
\<close>

theorem resume_filter_skips_rows_from_cutoff_on:
  "skip_row \<lparr>reprocess = True, reprocessIndex = 2, reprocessIDs = [], checkThreshold = 2,
             outputFile = ''bgg.json''\<rparr> 2 30
   \<and> main_loop ex_flt (\<lambda>t. t) ex_det
        \<lparr>reprocess = True, reprocessIndex = 2, reprocessIDs = [], checkThreshold = 2,
         outputFile = ''bgg.json''\<rparr> 0
        [(10, [ex_page ''A'', ex_last]), (20, [ex_page ''B'', ex_last]),
         (30, [ex_page ''C'', ex_last])] b_init
     = Some (None, b_init)"
  by (simp add: skip_row_def)

end
